theory Spec2Isabelle
  imports Main "HOL-Library.AList" "HOL-Library.Char_ord" "HOL-Library.List_Lexorder"
begin

section \<open>Strings and paths\<close>

text \<open>
  Strings are byte strings. The helpers below are the Python string operations that
  \<^verbatim>\<open>AIO_Python.py\<close> uses: \<^verbatim>\<open>str.startswith\<close>, \<^verbatim>\<open>str.endswith\<close>,
  the substring test \<^verbatim>\<open>a in b\<close>, \<^verbatim>\<open>str.lower\<close> and \<^verbatim>\<open>str.strip\<close>
  (on ASCII), and the decimal rendering of an index inside an f-string.
\<close>

definition starts_with :: "string \<Rightarrow> string \<Rightarrow> bool" where
  "starts_with pre s = (take (length pre) s = pre)"

definition ends_with :: "string \<Rightarrow> string \<Rightarrow> bool" where
  "ends_with suf s = (length suf \<le> length s \<and> drop (length s - length suf) s = suf)"

fun contains :: "string \<Rightarrow> string \<Rightarrow> bool" where
  "contains sub [] = (sub = [])"
| "contains sub (c # cs) = (starts_with sub (c # cs) \<or> contains sub cs)"

definition lower_char :: "char \<Rightarrow> char" where
  "lower_char c =
     (case map_of (zip ''ABCDEFGHIJKLMNOPQRSTUVWXYZ'' ''abcdefghijklmnopqrstuvwxyz'') c of
        None \<Rightarrow> c
      | Some l \<Rightarrow> l)"

definition lower :: "string \<Rightarrow> string" where
  "lower s = map lower_char s"

definition is_space :: "char \<Rightarrow> bool" where
  "is_space c = (let n = (of_char c :: nat) in (9 \<le> n \<and> n \<le> 13) \<or> (28 \<le> n \<and> n \<le> 32))"

definition strip :: "string \<Rightarrow> string" where
  "strip s = rev (dropWhile is_space (rev (dropWhile is_space s)))"

definition digit_char :: "nat \<Rightarrow> char" where
  "digit_char d = ''0123456789'' ! d"

function str_nat :: "nat \<Rightarrow> string" where
  "str_nat n = (if n < 10 then [digit_char n] else str_nat (n div 10) @ [digit_char (n mod 10)])"
  by pat_completeness auto
termination
  by (relation "measure (\<lambda>n. n)") auto

declare str_nat.simps [simp del]

text \<open>
  A path is its directory (the list of directory names from the root) and its file name.
  Paths are taken resolved: \<^verbatim>\<open>Path.resolve()\<close> is the identity, so symbolic links
  are outside the model. \<open>path_str\<close> is \<^verbatim>\<open>str(path)\<close>, written with \<open>/\<close>.
\<close>

record path =
  dir :: "string list"
  name :: string

definition path_str :: "path \<Rightarrow> string" where
  "path_str p = concat (map (\<lambda>d. ''/'' @ d) (dir p)) @ ''/'' @ name p"

definition parts :: "path \<Rightarrow> string list" where
  "parts p = dir p @ [name p]"

text \<open>
  \<^verbatim>\<open>PurePath.suffix\<close> and \<^verbatim>\<open>PurePath.stem\<close>: with \<open>i\<close> the index of the last
  dot of the name, the suffix is \<open>name[i:]\<close> when \<open>0 < i < len(name) - 1\<close> and empty
  otherwise; the stem is the rest. \<open>dot_tail\<close> is the part of the name after its last dot
  (the whole name when it has no dot).
\<close>

definition dot_tail :: "string \<Rightarrow> string" where
  "dot_tail n = rev (takeWhile (\<lambda>c. c \<noteq> CHR ''.'') (rev n))"

definition has_suffix :: "string \<Rightarrow> bool" where
  "has_suffix n =
     (CHR ''.'' \<in> set n \<and> 0 < length n - length (dot_tail n) - 1 \<and> dot_tail n \<noteq> [])"

definition suffix_of :: "string \<Rightarrow> string" where
  "suffix_of n = (if has_suffix n then drop (length n - length (dot_tail n) - 1) n else [])"

definition stem_of :: "string \<Rightarrow> string" where
  "stem_of n = (if has_suffix n then take (length n - length (dot_tail n) - 1) n else n)"

definition suffix :: "path \<Rightarrow> string" where
  "suffix p = suffix_of (name p)"

definition stem :: "path \<Rightarrow> string" where
  "stem p = stem_of (name p)"

definition with_name :: "path \<Rightarrow> string \<Rightarrow> path" where
  "with_name p n = p\<lparr>name := n\<rparr>"

definition with_suffix :: "path \<Rightarrow> string \<Rightarrow> path" where
  "with_suffix p s = p\<lparr>name := stem p @ s\<rparr>"

section \<open>The file system, the external tools and the state\<close>

text \<open>
  A file has its bytes and a flag telling whether it can be opened for reading. The file
  system is an association list from paths to files, so that a directory can be listed.
\<close>

type_synonym bytes = string

record fnode =
  data :: bytes
  readable :: bool

type_synonym fs = "(path \<times> fnode) list"

definition lookup :: "fs \<Rightarrow> path \<Rightarrow> fnode option" where
  "lookup f p = map_of f p"

definition exists :: "fs \<Rightarrow> path \<Rightarrow> bool" where
  "exists f p = (lookup f p \<noteq> None)"

definition write_file :: "path \<Rightarrow> bytes \<Rightarrow> fs \<Rightarrow> fs" where
  "write_file p b f = AList.update p \<lparr>data = b, readable = True\<rparr> f"

datatype error = IOError | FileNotFoundError | FileExistsError | TimeoutExpired

text \<open>The outcome of \<^verbatim>\<open>subprocess.run\<close> with a timeout: the exit status, or the timeout.\<close>

datatype proc_result = Exited int | TimedOut

text \<open>One stream of the JSON that the inspection tool prints; an absent key is \<open>None\<close>.\<close>

record stream =
  codec_name :: "string option"
  width :: "int option"
  height :: "int option"
  color_transfer :: "string option"
  pix_fmt :: "string option"
  tag_language :: "string option"

text \<open>
  The external collaborators, as parameters:
  \<^item> \<open>sha256_hex\<close>: \<^verbatim>\<open>hashlib.sha256(...).hexdigest()\<close> of the bytes fed to it;
  \<^item> \<open>ffprobe\<close>: the inspection tool on a stream type and a file: its outcome and the
    \<^verbatim>\<open>streams\<close> list of its JSON output (empty when the key is absent);
  \<^item> \<open>ffmpeg\<close>: the encoding tool on a command line and its input file: its outcome and
    the bytes it leaves at its output path (\<open>None\<close>: it writes nothing there);
  \<^item> \<open>timestamp\<close>, \<open>uuid8\<close>: \<^verbatim>\<open>datetime.now()\<close> formatted and \<^verbatim>\<open>uuid4().hex[:8]\<close>,
    as drawn when a temporary name is made for a file;
  \<^item> \<open>langdetect_available\<close>, \<open>detect\<close>: the optional language detector (\<open>None\<close>: it
    raises);
  \<^item> \<open>rename_replaces\<close>: whether \<^verbatim>\<open>Path.rename\<close> replaces an existing target (POSIX)
    or raises \<^verbatim>\<open>FileExistsError\<close> (Windows).
\<close>

record env =
  sha256_hex :: "bytes \<Rightarrow> string"
  ffprobe :: "string \<Rightarrow> path \<Rightarrow> fnode option \<Rightarrow> proc_result \<times> stream list"
  ffmpeg :: "string list \<Rightarrow> fnode option \<Rightarrow> proc_result \<times> bytes option"
  timestamp :: "path \<Rightarrow> string"
  uuid8 :: "path \<Rightarrow> string"
  langdetect_available :: bool
  detect :: "string \<Rightarrow> string option"
  rename_replaces :: bool

text \<open>
  What \<^verbatim>\<open>process_video\<close> reads and changes: the files, the two shared sets, and the
  command lines given to the encoding tool so far (oldest first).
\<close>

record state =
  files :: fs
  calls :: "string list list"
  processed_set :: "string set"
  processed_hashes :: "string set"

text \<open>The profile that \<^verbatim>\<open>check_video_info\<close> returns (the dict \<^verbatim>\<open>info\<close>).\<close>

record info =
  video_codec :: string
  audio_codec :: string
  text_sub_tracks :: "(nat \<times> string \<times> string) list"
  image_sub_tracks :: "(nat \<times> string \<times> string) list"
  i_width :: int
  i_height :: int
  i_color_transfer :: string
  i_pix_fmt :: string

section \<open>The Transcode Executor: \<^verbatim>\<open>convert_to_mp4\<close>\<close>

definition FFMPEG :: string where
  "FFMPEG = ''ffmpeg''"

definition filter_args :: "info \<Rightarrow> string list" where
  "filter_args i = (if contains ''10'' (i_pix_fmt i) then [''-vf'', ''format=yuv420p''] else [])"

definition audio_args :: "info \<Rightarrow> string list" where
  "audio_args i =
     (if audio_codec i \<in> {''aac'', ''mp3'', ''ac3''} then [''-c:a'', ''copy'']
      else [''-c:a'', ''aac'', ''-b:a'', ''192k''])"

definition gpu_cmd :: "path \<Rightarrow> path \<Rightarrow> info \<Rightarrow> string list" where
  "gpu_cmd src dst i =
     [FFMPEG, ''-hide_banner'', ''-y'', ''-hwaccel'', ''cuda'', ''-i'', path_str src]
     @ filter_args i
     @ [''-c:v'', ''h264_nvenc'', ''-preset'', ''p5'', ''-cq'', ''20'', ''-pix_fmt'', ''yuv420p'']
     @ audio_args i
     @ [''-f'', ''mp4'', path_str dst]"

definition cpu_cmd :: "path \<Rightarrow> path \<Rightarrow> info \<Rightarrow> string list" where
  "cpu_cmd src dst i =
     [FFMPEG, ''-hide_banner'', ''-y'', ''-i'', path_str src]
     @ filter_args i
     @ [''-c:v'', ''libx264'', ''-crf'', ''18'', ''-pix_fmt'', ''yuv420p'']
     @ audio_args i
     @ [''-f'', ''mp4'', path_str dst]"

text \<open>
  One run of the encoding tool: the command line is recorded, the tool reads its input
  file and leaves its output (if any) at the output path.
\<close>

definition run_ffmpeg :: "env \<Rightarrow> string list \<Rightarrow> path \<Rightarrow> path \<Rightarrow> state \<Rightarrow> proc_result \<times> state" where
  "run_ffmpeg E cmd src dst s =
     (let (r, out) = ffmpeg E cmd (lookup (files s) src) in
      (r, s\<lparr>files := (case out of None \<Rightarrow> files s | Some b \<Rightarrow> write_file dst b (files s)),
            calls := calls s @ [cmd]\<rparr>))"

text \<open>
  \<^verbatim>\<open>convert_to_mp4\<close> (lines 172-214). The GPU attempt returns \<open>True\<close> on exit status 0
  with the output present, returns \<open>False\<close> from its \<^verbatim>\<open>except TimeoutExpired\<close> handler,
  and falls through to the CPU attempt otherwise.
\<close>

definition convert_to_mp4 :: "env \<Rightarrow> path \<Rightarrow> path \<Rightarrow> info \<Rightarrow> state \<Rightarrow> bool \<times> state" where
  "convert_to_mp4 E src dst i s =
     (case run_ffmpeg E (gpu_cmd src dst i) src dst s of
        (TimedOut, s1) \<Rightarrow> (False, s1)
      | (Exited rc, s1) \<Rightarrow>
          if rc = 0 \<and> exists (files s1) dst then (True, s1)
          else
            (case run_ffmpeg E (cpu_cmd src dst i) src dst s1 of
               (TimedOut, s2) \<Rightarrow> (False, s2)
             | (Exited rc2, s2) \<Rightarrow> (rc2 = 0 \<and> exists (files s2) dst, s2)))"

section \<open>File operations\<close>

text \<open>
  \<^verbatim>\<open>Path.unlink\<close> raises when the file is missing. \<^verbatim>\<open>Path.rename\<close> raises when the
  source is missing, and when the target exists on a platform that does not replace it.
\<close>

definition unlink :: "path \<Rightarrow> fs \<Rightarrow> error + fs" where
  "unlink p f = (if exists f p then Inr (AList.delete p f) else Inl FileNotFoundError)"

definition rename :: "env \<Rightarrow> path \<Rightarrow> path \<Rightarrow> fs \<Rightarrow> error + fs" where
  "rename E src dst f =
     (case lookup f src of
        None \<Rightarrow> Inl FileNotFoundError
      | Some x \<Rightarrow>
          if src = dst then Inr f
          else if exists f dst \<and> \<not> rename_replaces E then Inl FileExistsError
          else Inr (AList.update dst x (AList.delete src f)))"

text \<open>
  \<^verbatim>\<open>compute_file_hash\<close> (lines 77-84). \<open>read_prefix\<close> is the loop over
  \<^verbatim>\<open>iter(lambda: f.read(chunk_size), b"")\<close>: \<open>pos\<close> is \<^verbatim>\<open>f.tell()\<close> before the read and
  \<open>acc\<close> the bytes given to \<^verbatim>\<open>hash_sha256.update\<close> so far. Opening a missing or unreadable
  file raises.
\<close>

function read_prefix :: "nat \<Rightarrow> nat \<Rightarrow> bytes \<Rightarrow> nat \<Rightarrow> bytes \<Rightarrow> bytes" where
  "read_prefix chunk_size max_bytes d pos acc =
     (let chunk = take chunk_size (drop pos d) in
      if chunk = [] then acc
      else if max_bytes \<le> pos + length chunk then acc @ chunk
      else read_prefix chunk_size max_bytes d (pos + length chunk) (acc @ chunk))"
  by pat_completeness auto
termination
  by (relation "measure (\<lambda>(c, m, d, pos, acc). length d - pos)") auto

declare read_prefix.simps [simp del]

definition compute_file_hash :: "env \<Rightarrow> path \<Rightarrow> fs \<Rightarrow> error + string" where
  "compute_file_hash E file f =
     (case lookup f file of
        None \<Rightarrow> Inl IOError
      | Some x \<Rightarrow>
          if readable x then Inr (sha256_hex E (read_prefix 8192 (1024 * 1024) (data x) 0 []))
          else Inl IOError)"

text \<open>
  \<^verbatim>\<open>get_temp_conversion_filename\<close> (lines 86-93) and \<^verbatim>\<open>cleanup_temp_files\<close>
  (lines 95-103). The glob pattern \<^verbatim>\<open>{stem}_converted_*.mp4\<close> is read with the stem
  taken literally, in the directory of the video; a failing \<^verbatim>\<open>unlink\<close> there is caught
  by the source and is not modelled.
\<close>

definition get_temp_conversion_filename :: "env \<Rightarrow> path \<Rightarrow> path" where
  "get_temp_conversion_filename E video_file =
     \<lparr>dir = dir video_file,
      name = stem video_file @ ''_converted_'' @ timestamp E video_file @ ''_''
             @ uuid8 E video_file @ ''.mp4''\<rparr>"

definition temp_pattern_matches :: "string \<Rightarrow> string \<Rightarrow> bool" where
  "temp_pattern_matches st n =
     (starts_with (st @ ''_converted_'') n \<and> ends_with ''.mp4'' n
      \<and> length (st @ ''_converted_'') + length ''.mp4'' \<le> length n)"

definition is_temp_of :: "path \<Rightarrow> path \<Rightarrow> bool" where
  "is_temp_of video_file q =
     (dir q = dir video_file \<and> temp_pattern_matches (stem video_file) (name q))"

definition glob_temp :: "path \<Rightarrow> fs \<Rightarrow> path list" where
  "glob_temp video_file f = filter (is_temp_of video_file) (map fst f)"

definition cleanup_temp_files :: "path \<Rightarrow> fs \<Rightarrow> fs" where
  "cleanup_temp_files video_file f = fold AList.delete (glob_temp video_file f) f"

section \<open>The Media Prober\<close>

definition TEXT_CODECS :: "(string \<times> string) list" where
  "TEXT_CODECS =
     [(''subrip'', ''srt''), (''ass'', ''ass''), (''ssa'', ''ass''), (''mov_text'', ''srt''),
      (''webvtt'', ''srt'')]"

text \<open>
  \<^verbatim>\<open>run_ffprobe\<close> (lines 122-129): the streams of the output on exit status 0, no
  streams otherwise; the timeout of \<^verbatim>\<open>subprocess.run\<close> is not caught.
\<close>

definition run_ffprobe :: "env \<Rightarrow> string \<Rightarrow> path \<Rightarrow> fs \<Rightarrow> error + stream list" where
  "run_ffprobe E stream_type file f =
     (case ffprobe E stream_type file (lookup f file) of
        (TimedOut, ss) \<Rightarrow> Inl TimeoutExpired
      | (Exited rc, ss) \<Rightarrow> Inr (if rc = 0 then ss else []))"

definition info0 :: info where
  "info0 = \<lparr>video_codec = ''unknown'', audio_codec = ''unknown'', text_sub_tracks = [],
            image_sub_tracks = [], i_width = 0, i_height = 0, i_color_transfer = [],
            i_pix_fmt = []\<rparr>"

definition get_or :: "'a option \<Rightarrow> 'a \<Rightarrow> 'a" where
  "get_or v d = (case v of None \<Rightarrow> d | Some x \<Rightarrow> x)"

definition video_part :: "stream list \<Rightarrow> info \<Rightarrow> info" where
  "video_part vs i =
     (case vs of
        [] \<Rightarrow> i
      | st # rest \<Rightarrow>
          i\<lparr>video_codec := get_or (codec_name st) ''unknown'',
            i_width := get_or (width st) 0,
            i_height := get_or (height st) 0,
            i_color_transfer := get_or (color_transfer st) [],
            i_pix_fmt := get_or (pix_fmt st) []\<rparr>)"

definition audio_part :: "stream list \<Rightarrow> info \<Rightarrow> info" where
  "audio_part as i =
     (case as of [] \<Rightarrow> i | st # rest \<Rightarrow> i\<lparr>audio_codec := get_or (codec_name st) ''unknown''\<rparr>)"

text \<open>The loop of lines 157-163 over \<^verbatim>\<open>enumerate(subtitle_info["streams"])\<close>.\<close>

fun subtitle_part :: "(nat \<times> stream) list \<Rightarrow> info \<Rightarrow> info" where
  "subtitle_part [] i = i"
| "subtitle_part ((idx, st) # rest) i =
     (let codec = get_or (codec_name st) ''unknown'';
          lang_tag = get_or (tag_language st) []
      in subtitle_part rest
           (if codec \<in> set (map fst TEXT_CODECS)
            then i\<lparr>text_sub_tracks := text_sub_tracks i @ [(idx, codec, lang_tag)]\<rparr>
            else if codec = ''hdmv_pgs_subtitle''
            then i\<lparr>image_sub_tracks := image_sub_tracks i @ [(idx, codec, lang_tag)]\<rparr>
            else i))"

definition check_video_info :: "env \<Rightarrow> path \<Rightarrow> fs \<Rightarrow> error + info" where
  "check_video_info E file f =
     (case run_ffprobe E ''v'' file f of
        Inl e \<Rightarrow> Inl e
      | Inr vs \<Rightarrow>
          (case run_ffprobe E ''a'' file f of
             Inl e \<Rightarrow> Inl e
           | Inr as \<Rightarrow>
               (case run_ffprobe E ''s'' file f of
                  Inl e \<Rightarrow> Inl e
                | Inr ss \<Rightarrow>
                    Inr (subtitle_part (enumerate 0 ss) (audio_part as (video_part vs info0))))))"

definition is_4k_or_hdr :: "int \<Rightarrow> int \<Rightarrow> string \<Rightarrow> bool" where
  "is_4k_or_hdr w h ct =
     (if 3840 \<le> w \<and> 2160 \<le> h then True
      else ct \<in> {''smpte2084'', ''arib-std-b67'', ''pq''})"

section \<open>The Subtitle Extractor\<close>

text \<open>
  \<^verbatim>\<open>maybe_guess_srt_language\<close> (lines 105-120). Reading the text is outside the
  \<^verbatim>\<open>try\<close> of the source, so a file that cannot be opened raises; a failure of the
  detector or of the rename is caught and leaves the files as they are.
\<close>

definition maybe_guess_srt_language :: "env \<Rightarrow> path \<Rightarrow> fs \<Rightarrow> error + fs" where
  "maybe_guess_srt_language E srt_file f =
     (case lookup f srt_file of
        None \<Rightarrow> Inr f
      | Some x \<Rightarrow>
          if \<not> langdetect_available E then Inr f
          else if \<not> readable x then Inl IOError
          else if length (strip (data x)) < 20 then Inr f
          else
            (case detect E (data x) of
               None \<Rightarrow> Inr f
             | Some g \<Rightarrow>
                 let guessed = lower g;
                     new_path = with_name srt_file (stem srt_file @ ''.'' @ guessed @ ''.srt'')
                 in if guessed \<noteq> ''en'' \<and> \<not> exists f new_path
                    then (case rename E srt_file new_path f of Inl e \<Rightarrow> Inr f | Inr f' \<Rightarrow> Inr f')
                    else Inr f))"

definition sub_out_path :: "path \<Rightarrow> nat \<Rightarrow> string \<Rightarrow> string \<Rightarrow> path" where
  "sub_out_path video_file track_index lang_tag ext =
     with_name video_file
       (stem video_file @ ''.''
        @ (if lang_tag \<noteq> [] then lang_tag else ''track'' @ str_nat track_index) @ ext)"

definition text_sub_cmd :: "path \<Rightarrow> nat \<Rightarrow> path \<Rightarrow> string list" where
  "text_sub_cmd video_file track_index out_path =
     [FFMPEG, ''-hide_banner'', ''-y'', ''-i'', path_str video_file,
      ''-map'', ''0:'' @ str_nat track_index, ''-c:s'', ''srt'', path_str out_path]"

definition image_sub_cmd :: "path \<Rightarrow> nat \<Rightarrow> path \<Rightarrow> string list" where
  "image_sub_cmd video_file track_index out_path =
     [FFMPEG, ''-hide_banner'', ''-y'', ''-i'', path_str video_file,
      ''-map'', ''0:'' @ str_nat track_index, path_str out_path]"

definition nonempty_file :: "fs \<Rightarrow> path \<Rightarrow> bool" where
  "nonempty_file f p = (case lookup f p of None \<Rightarrow> False | Some x \<Rightarrow> 0 < length (data x))"

text \<open>
  \<^verbatim>\<open>extract_text_subs_if_any\<close> (lines 216-229) and \<^verbatim>\<open>extract_image_subs_if_any\<close>
  (lines 231-240): one pass over the tracks; the timeout of \<^verbatim>\<open>subprocess.run\<close> is not
  caught and ends the pass.
\<close>

fun extract_text_subs_if_any ::
  "env \<Rightarrow> path \<Rightarrow> (nat \<times> string \<times> string) list \<Rightarrow> state \<Rightarrow> state \<times> error option" where
  "extract_text_subs_if_any E video_file [] s = (s, None)"
| "extract_text_subs_if_any E video_file ((track_index, codec, lang_tag) # rest) s =
     (let out_path = sub_out_path video_file track_index lang_tag ''.srt'' in
      if exists (files s) out_path then extract_text_subs_if_any E video_file rest s
      else
        (case run_ffmpeg E (text_sub_cmd video_file track_index out_path) video_file out_path s of
           (TimedOut, s1) \<Rightarrow> (s1, Some TimeoutExpired)
         | (Exited rc, s1) \<Rightarrow>
             if rc = 0 \<and> exists (files s1) out_path \<and> nonempty_file (files s1) out_path
                \<and> lang_tag = [] \<and> langdetect_available E
             then (case maybe_guess_srt_language E out_path (files s1) of
                     Inl e \<Rightarrow> (s1, Some e)
                   | Inr f' \<Rightarrow> extract_text_subs_if_any E video_file rest (s1\<lparr>files := f'\<rparr>))
             else extract_text_subs_if_any E video_file rest s1))"

fun extract_image_subs_if_any ::
  "env \<Rightarrow> path \<Rightarrow> (nat \<times> string \<times> string) list \<Rightarrow> state \<Rightarrow> state \<times> error option" where
  "extract_image_subs_if_any E video_file [] s = (s, None)"
| "extract_image_subs_if_any E video_file ((track_index, codec, lang_tag) # rest) s =
     (let out_path = sub_out_path video_file track_index lang_tag ''.sup'' in
      if exists (files s) out_path then extract_image_subs_if_any E video_file rest s
      else
        (case run_ffmpeg E (image_sub_cmd video_file track_index out_path) video_file out_path s of
           (TimedOut, s1) \<Rightarrow> (s1, Some TimeoutExpired)
         | (Exited rc, s1) \<Rightarrow> extract_image_subs_if_any E video_file rest s1))"

section \<open>The per-file pipeline: \<^verbatim>\<open>process_video\<close>\<close>

definition SKIP_4K_OR_HDR :: bool where
  "SKIP_4K_OR_HDR = True"

definition mark_handled :: "path \<Rightarrow> state \<Rightarrow> state" where
  "mark_handled p s = s\<lparr>processed_set := insert (path_str p) (processed_set s)\<rparr>"

text \<open>Lines 290-296: the subtitle extraction on the final file, then both identities.\<close>

definition extract_and_mark :: "env \<Rightarrow> path \<Rightarrow> path \<Rightarrow> info \<Rightarrow> state \<Rightarrow> state \<times> error option" where
  "extract_and_mark E video_file final_file i s =
     (case extract_text_subs_if_any E final_file (text_sub_tracks i) s of
        (s1, Some e) \<Rightarrow> (s1, Some e)
      | (s1, None) \<Rightarrow>
          (case extract_image_subs_if_any E final_file (image_sub_tracks i) s1 of
             (s2, Some e) \<Rightarrow> (s2, Some e)
           | (s2, None) \<Rightarrow> (mark_handled final_file (mark_handled video_file s2), None)))"

text \<open>
  Lines 277-288, the \<^verbatim>\<open>else\<close> branch: the conversion to a temporary file; on success
  the original is deleted, the temporary file takes the name with the suffix
  \<^verbatim>\<open>.mp4\<close> and the final file is probed again; on failure the identity is marked.
\<close>

definition convert_and_finish :: "env \<Rightarrow> path \<Rightarrow> info \<Rightarrow> state \<Rightarrow> state \<times> error option" where
  "convert_and_finish E video_file i s =
     (let temp_mp4_path = get_temp_conversion_filename E video_file in
      case convert_to_mp4 E video_file temp_mp4_path i s of
        (False, s1) \<Rightarrow> (mark_handled video_file s1, None)
      | (True, s1) \<Rightarrow>
          (case unlink video_file (files s1) of
             Inl e \<Rightarrow> (s1, Some e)
           | Inr f1 \<Rightarrow>
               let final_file = with_suffix video_file ''.mp4'' in
               (case rename E temp_mp4_path final_file f1 of
                  Inl e \<Rightarrow> (s1\<lparr>files := f1\<rparr>, Some e)
                | Inr f2 \<Rightarrow>
                    (case check_video_info E final_file f2 of
                       Inl e \<Rightarrow> (s1\<lparr>files := f2\<rparr>, Some e)
                     | Inr i2 \<Rightarrow> extract_and_mark E video_file final_file i2 (s1\<lparr>files := f2\<rparr>)))))"

definition already_optimized :: "path \<Rightarrow> info \<Rightarrow> bool" where
  "already_optimized video_file i =
     (video_codec i = ''h264'' \<and> audio_codec i \<in> {''aac'', ''mp3'', ''ac3''}
      \<and> lower (suffix video_file) = ''.mp4'')"

text \<open>
  \<^verbatim>\<open>process_video\<close> (lines 242-296). The result carries the state as the call leaves it
  (the sets are changed in place) and the exception that ended the call, if any. The
  arguments \<^verbatim>\<open>idx\<close> and \<^verbatim>\<open>total\<close> only feed the log and are left out.
\<close>

definition process_video :: "env \<Rightarrow> path \<Rightarrow> state \<Rightarrow> state \<times> error option" where
  "process_video E video_file s =
     (if path_str video_file \<in> processed_set s then (s, None)
      else
        let s1 = s\<lparr>files := cleanup_temp_files video_file (files s)\<rparr> in
        case compute_file_hash E video_file (files s1) of
          Inl e \<Rightarrow> (s1, Some e)
        | Inr file_hash \<Rightarrow>
            if file_hash \<noteq> [] \<and> file_hash \<in> processed_hashes s1 then
              (case unlink video_file (files s1) of
                 Inl e \<Rightarrow> (s1, Some e)
               | Inr f' \<Rightarrow> (mark_handled video_file (s1\<lparr>files := f'\<rparr>), None))
            else
              let s2 = (if file_hash \<noteq> []
                        then s1\<lparr>processed_hashes := insert file_hash (processed_hashes s1)\<rparr>
                        else s1)
              in
              case check_video_info E video_file (files s2) of
                Inl e \<Rightarrow> (s2, Some e)
              | Inr i \<Rightarrow>
                  if video_codec i = ''unknown'' \<and> audio_codec i = ''unknown''
                  then (mark_handled video_file s2, None)
                  else if SKIP_4K_OR_HDR \<and> is_4k_or_hdr (i_width i) (i_height i) (i_color_transfer i)
                  then (mark_handled video_file s2, None)
                  else if already_optimized video_file i
                  then extract_and_mark E video_file video_file i s2
                  else convert_and_finish E video_file i s2)"

section \<open>The scan, the persisted sets and \<^verbatim>\<open>main\<close>\<close>

definition DIRECTORIES :: "string list list" where
  "DIRECTORIES = [[''F:'', ''TV'']]"

definition video_exts :: "string list" where
  "video_exts = [''.mkv'', ''.mp4'', ''.avi'', ''.mov'', ''.flv'', ''.wmv'']"

text \<open>
  \<^verbatim>\<open>base_path.rglob(f"*{ext}")\<close>: the files below the base directory whose name ends
  with the extension. \<^verbatim>\<open>scan_video_files\<close> (lines 298-305) sorts what the two nested
  loops collect; paths compare by their parts.
\<close>

definition rglob :: "string list \<Rightarrow> string \<Rightarrow> fs \<Rightarrow> path list" where
  "rglob base ext f =
     filter (\<lambda>q. take (length base) (dir q) = base \<and> ends_with ext (name q)) (map fst f)"

definition scan_video_files :: "string list list \<Rightarrow> fs \<Rightarrow> path list" where
  "scan_video_files directories f =
     sort_key parts (concat (map (\<lambda>d. concat (map (\<lambda>ext. rglob d ext f) video_exts)) directories))"

text \<open>
  The two state files hold one entry per line; a missing file is \<open>None\<close>. Loading
  (lines 55-59, 66-70) strips every line and drops the empty ones; saving (lines 61-64,
  72-75) writes the sorted entries.
\<close>

record disk =
  d_files :: fs
  d_calls :: "string list list"
  processed_txt :: "string list option"
  hashes_db_txt :: "string list option"

definition load_lines :: "string list option \<Rightarrow> string set" where
  "load_lines t = (case t of None \<Rightarrow> {} | Some ls \<Rightarrow> set (filter (\<lambda>x. x \<noteq> []) (map strip ls)))"

definition load_processed_list :: "disk \<Rightarrow> string set" where
  "load_processed_list D = load_lines (processed_txt D)"

definition load_hash_db :: "disk \<Rightarrow> string set" where
  "load_hash_db D = load_lines (hashes_db_txt D)"

definition save_lines :: "string set \<Rightarrow> string list option" where
  "save_lines S = Some (sorted_list_of_set S)"

definition save_processed_list :: "string set \<Rightarrow> disk \<Rightarrow> disk" where
  "save_processed_list S D = D\<lparr>processed_txt := save_lines S\<rparr>"

definition save_hash_db :: "string set \<Rightarrow> disk \<Rightarrow> disk" where
  "save_hash_db S D = D\<lparr>hashes_db_txt := save_lines S\<rparr>"

text \<open>
  The pool of lines 318-324, on the schedule in which the submitted calls run one after
  the other in submission order. Every submitted call runs, also after one of them has
  raised; \<^verbatim>\<open>future.result()\<close> then raises in \<^verbatim>\<open>main\<close>.
\<close>

fun process_all :: "env \<Rightarrow> path list \<Rightarrow> state \<Rightarrow> state \<times> error option" where
  "process_all E [] s = (s, None)"
| "process_all E (v # vs) s =
     (case process_video E v s of
        (s1, r1) \<Rightarrow>
          (case process_all E vs s1 of
             (s2, r2) \<Rightarrow> (s2, (case r1 of None \<Rightarrow> r2 | Some e \<Rightarrow> Some e))))"

text \<open>
  \<^verbatim>\<open>main\<close> (lines 307-328): nothing is loaded or saved when no video is found, and an
  exception of a call leaves \<^verbatim>\<open>main\<close> before the two sets are saved.
\<close>

definition main :: "env \<Rightarrow> disk \<Rightarrow> disk \<times> error option" where
  "main E D =
     (let all_videos = scan_video_files DIRECTORIES (d_files D) in
      if all_videos = [] then (D, None)
      else
        let s0 = \<lparr>files = d_files D, calls = d_calls D,
                  processed_set = load_processed_list D,
                  processed_hashes = load_hash_db D\<rparr>
        in
        case process_all E all_videos s0 of
          (s1, Some e) \<Rightarrow> (D\<lparr>d_files := files s1, d_calls := calls s1\<rparr>, Some e)
        | (s1, None) \<Rightarrow>
            (save_hash_db (processed_hashes s1)
               (save_processed_list (processed_set s1)
                  (D\<lparr>d_files := files s1, d_calls := calls s1\<rparr>)), None))"

section \<open>Names used in the statements\<close>

text \<open>
  Two names for the states inside \<open>process_video\<close>: after the cleanup of line 249, and
  after the fingerprint has been recorded by lines 257-258.
\<close>

definition after_cleanup :: "path \<Rightarrow> state \<Rightarrow> state" where
  "after_cleanup v s = s\<lparr>files := cleanup_temp_files v (files s)\<rparr>"

definition after_hash :: "path \<Rightarrow> string \<Rightarrow> state \<Rightarrow> state" where
  "after_hash v h s =
     (if h \<noteq> [] then (after_cleanup v s)\<lparr>processed_hashes := insert h (processed_hashes s)\<rparr>
      else after_cleanup v s)"


text \<open>The state that \<open>main\<close> hands to the calls: the files, and the two loaded sets.\<close>

definition start_state :: "disk \<Rightarrow> state" where
  "start_state D =
     \<lparr>files = d_files D, calls = d_calls D, processed_set = load_processed_list D,
      processed_hashes = load_hash_db D\<rparr>"

text \<open>
  Two classes of file names: the subtitle files that the Subtitle Extractor writes, and the
  names that the scan picks up.
\<close>

definition sidecar :: "path \<Rightarrow> bool" where
  "sidecar q = (ends_with ''.srt'' (name q) \<or> ends_with ''.sup'' (name q))"

definition video_name :: "string \<Rightarrow> bool" where
  "video_name n = (\<exists>ext\<in>set video_exts. ends_with ext n)"

section \<open>The decision function of the specification\<close>

text \<open>
  This definition follows the words of the specification (section 4.3, the Policy Engine),
  not the source: \<open>decide(identity, profile, fingerprint, state)\<close> tests its six cases
  in order and the first match wins. The extension of the file is an argument of its own.
  The target codec \<open>h264\<close>, the target audio set and the target extension \<open>.mp4\<close> are
  the values of the source, which the specification leaves unnamed. It is compared with
  \<open>process_video\<close> below.
\<close>

datatype skip_reason = already_processed | duplicate | unprobeable | policy_4k_hdr | already_optimal

datatype action = Skip skip_reason | Convert

definition spec_decide :: "string \<Rightarrow> string \<Rightarrow> info \<Rightarrow> string \<Rightarrow> state \<Rightarrow> action" where
  "spec_decide identity extension profile fingerprint st =
     (if identity \<in> processed_set st then Skip already_processed
      else if fingerprint \<in> processed_hashes st then Skip duplicate
      else if video_codec profile = ''unknown'' \<and> audio_codec profile = ''unknown''
      then Skip unprobeable
      else if SKIP_4K_OR_HDR
              \<and> ((3840 \<le> i_width profile \<and> 2160 \<le> i_height profile)
                 \<or> i_color_transfer profile \<in> {''smpte2084'', ''arib-std-b67'', ''pq''})
      then Skip policy_4k_hdr
      else if video_codec profile = ''h264'' \<and> audio_codec profile \<in> {''aac'', ''mp3'', ''ac3''}
              \<and> extension = ''.mp4''
      then Skip already_optimal
      else Convert)"

section \<open>Concrete inputs\<close>

text \<open>
  A library with one file, and three encoders: one whose GPU attempt runs into the
  timeout, one whose GPU attempt exits with status 1, one whose GPU attempt exits with
  status 0 and writes nothing. The CPU attempt of each succeeds.
\<close>

definition env_gpu_timeout :: env where
  "env_gpu_timeout =
     \<lparr>sha256_hex = (\<lambda>b. ''sha:'' @ b),
      ffprobe = (\<lambda>t p x. (Exited 0, [])),
      ffmpeg = (\<lambda>cmd x. if ''h264_nvenc'' \<in> set cmd then (TimedOut, None)
                         else (Exited 0, Some ''mp4 bytes'')),
      timestamp = (\<lambda>p. ''20240101_000000''),
      uuid8 = (\<lambda>p. ''0a1b2c3d''),
      langdetect_available = False,
      detect = (\<lambda>t. None),
      rename_replaces = False\<rparr>"

definition env_gpu_fails :: env where
  "env_gpu_fails =
     env_gpu_timeout\<lparr>ffmpeg := (\<lambda>cmd x. if ''h264_nvenc'' \<in> set cmd then (Exited 1, None)
                                       else (Exited 0, Some ''mp4 bytes''))\<rparr>"

definition env_gpu_no_output :: env where
  "env_gpu_no_output =
     env_gpu_timeout\<lparr>ffmpeg := (\<lambda>cmd x. if ''h264_nvenc'' \<in> set cmd then (Exited 0, None)
                                       else (Exited 0, Some ''mp4 bytes''))\<rparr>"

definition movie_mkv :: path where
  "movie_mkv = \<lparr>dir = [''F:'', ''TV''], name = ''movie.mkv''\<rparr>"

definition movie_tmp :: path where
  "movie_tmp =
     \<lparr>dir = [''F:'', ''TV''], name = ''movie_converted_20240101_000000_0a1b2c3d.mp4''\<rparr>"

definition hevc_info :: info where
  "hevc_info =
     info0\<lparr>video_codec := ''hevc'', audio_codec := ''ac3'', i_width := 1280, i_height := 720\<rparr>"

definition state0 :: state where
  "state0 =
     \<lparr>files = [(movie_mkv, \<lparr>data = ''mkv bytes'', readable = True\<rparr>)], calls = [],
      processed_set = {}, processed_hashes = {}\<rparr>"

text \<open>
  Probe answers: a video stream, an audio or subtitle stream, and an inspection tool that
  answers the three queries with fixed stream lists. \<open>env_4k\<close> reports a 3840x2160
  HEVC/AC3 file.
\<close>

definition video_stream :: "string \<Rightarrow> int \<Rightarrow> int \<Rightarrow> stream" where
  "video_stream c w h =
     \<lparr>codec_name = Some c, width = Some w, height = Some h, color_transfer = None,
      pix_fmt = Some ''yuv420p'', tag_language = None\<rparr>"

definition other_stream :: "string \<Rightarrow> string option \<Rightarrow> stream" where
  "other_stream c l =
     \<lparr>codec_name = Some c, width = None, height = None, color_transfer = None,
      pix_fmt = None, tag_language = l\<rparr>"

definition probe_with ::
  "stream list \<Rightarrow> stream list \<Rightarrow> stream list \<Rightarrow> string \<Rightarrow> path \<Rightarrow> fnode option
     \<Rightarrow> proc_result \<times> stream list" where
  "probe_with vs as ss t p x =
     (Exited 0, if t = ''v'' then vs else if t = ''a'' then as else ss)"

definition env_4k :: env where
  "env_4k =
     env_gpu_timeout\<lparr>ffprobe := probe_with [video_stream ''hevc'' 3840 2160]
                                  [other_stream ''ac3'' None] []\<rparr>"

definition info_4k :: info where
  "info_4k =
     info0\<lparr>video_codec := ''hevc'', audio_codec := ''ac3'', i_width := 3840, i_height := 2160,
           i_pix_fmt := ''yuv420p''\<rparr>"

text \<open>
  \<open>env_encoder_fails\<close> reports a 1280x720 HEVC/AC3 file, and its encoding tool exits with
  status 1 on every command line and writes nothing.
\<close>

definition env_encoder_fails :: env where
  "env_encoder_fails =
     env_gpu_timeout\<lparr>ffprobe := probe_with [video_stream ''hevc'' 1280 720]
                                  [other_stream ''ac3'' None] [],
                      ffmpeg := (\<lambda>cmd x. (Exited 1, None))\<rparr>"

definition info_720 :: info where
  "info_720 =
     info0\<lparr>video_codec := ''hevc'', audio_codec := ''ac3'', i_width := 1280, i_height := 720,
           i_pix_fmt := ''yuv420p''\<rparr>"

text \<open>
  The one-file library with the identity of the file already handled, and with its
  fingerprint already seen.
\<close>

definition state_handled :: state where
  "state_handled = state0\<lparr>processed_set := {path_str movie_mkv}\<rparr>"

definition state_seen :: state where
  "state_seen = state0\<lparr>processed_hashes := {''sha:mkv bytes''}\<rparr>"


definition movie_mp4 :: path where
  "movie_mp4 = \<lparr>dir = [''F:'', ''TV''], name = ''movie.mp4''\<rparr>"







text \<open>
  A library of two files, one of which exists but cannot be opened for reading; no state
  file has been written yet.
\<close>

definition locked_mkv :: path where
  "locked_mkv = \<lparr>dir = [''F:'', ''TV''], name = ''locked.mkv''\<rparr>"

definition disk_locked :: disk where
  "disk_locked =
     \<lparr>d_files = [(movie_mkv, \<lparr>data = ''mkv bytes'', readable = True\<rparr>),
                 (locked_mkv, \<lparr>data = ''locked bytes'', readable = False\<rparr>)],
      d_calls = [], processed_txt = None, hashes_db_txt = None\<rparr>"

text \<open>
  \<open>env_partial\<close> reports \<open>movie.mkv\<close> as a 1280x720 HEVC/AC3 file and cannot read any
  other file; its encoding tool runs into the timeout after it has written a part of its
  output. \<open>disk_one\<close> is the one-file library before the first run;
  \<open>disk_after_timeout\<close> is what the first run with \<open>env_partial\<close> leaves, and
  \<open>disk_after_skip\<close> what the first run with \<open>env_4k\<close> leaves.
\<close>

definition env_partial :: env where
  "env_partial =
     env_gpu_timeout\<lparr>ffprobe := (\<lambda>t p x. if name p = ''movie.mkv''
                                    then probe_with [video_stream ''hevc'' 1280 720]
                                           [other_stream ''ac3'' None] [] t p x
                                    else (Exited 1, [])),
                      ffmpeg := (\<lambda>cmd x. (TimedOut, Some ''partial output''))\<rparr>"

definition disk_one :: disk where
  "disk_one =
     \<lparr>d_files = [(movie_mkv, \<lparr>data = ''mkv bytes'', readable = True\<rparr>)],
      d_calls = [], processed_txt = None, hashes_db_txt = None\<rparr>"

definition disk_after_timeout :: disk where
  "disk_after_timeout =
     \<lparr>d_files = [(movie_mkv, \<lparr>data = ''mkv bytes'', readable = True\<rparr>),
                 (movie_tmp, \<lparr>data = ''partial output'', readable = True\<rparr>)],
      d_calls = [gpu_cmd movie_mkv movie_tmp info_720],
      processed_txt = Some [''/F:/TV/movie.mkv''],
      hashes_db_txt = Some [''sha:mkv bytes'']\<rparr>"

definition disk_after_skip :: disk where
  "disk_after_skip =
     \<lparr>d_files = [(movie_mkv, \<lparr>data = ''mkv bytes'', readable = True\<rparr>)],
      d_calls = [], processed_txt = Some [''/F:/TV/movie.mkv''],
      hashes_db_txt = Some [''sha:mkv bytes'']\<rparr>"







section \<open>Properties of the strings and the file system\<close>

lemma dot_tail_no_dot: "CHR ''.'' \<notin> set (dot_tail n)"
proof
  assume "CHR ''.'' \<in> set (dot_tail n)"
  then have "CHR ''.'' \<in> set (takeWhile (\<lambda>c. c \<noteq> CHR ''.'') (rev n))"
    by (simp add: dot_tail_def)
  then show False by (auto dest: set_takeWhileD)
qed

lemma dot_tail_split:
  assumes "CHR ''.'' \<in> set n"
  shows "\<exists>r. n = r @ CHR ''.'' # dot_tail n \<and> length r = length n - length (dot_tail n) - 1"
proof -
  let ?P = "\<lambda>c. c \<noteq> CHR ''.''"
  let ?d = "dropWhile ?P (rev n)"
  have ne: "?d \<noteq> []"
    using assms by auto
  then have "\<not> ?P (hd ?d)" by (rule hd_dropWhile)
  then have hd: "hd ?d = CHR ''.''" by simp
  from ne hd have d: "?d = CHR ''.'' # tl ?d" by (cases ?d) auto
  have "rev n = takeWhile ?P (rev n) @ ?d" by simp
  then have "rev n = takeWhile ?P (rev n) @ CHR ''.'' # tl ?d" using d by simp
  then have "rev (rev n) = rev (takeWhile ?P (rev n) @ CHR ''.'' # tl ?d)" by simp
  then have n: "n = rev (tl ?d) @ CHR ''.'' # dot_tail n"
    by (simp add: dot_tail_def)
  have "length n = length (rev (tl ?d) @ CHR ''.'' # dot_tail n)"
    using n by simp
  then have "length (rev (tl ?d)) = length n - length (dot_tail n) - 1" by simp
  with n show ?thesis by blast
qed

lemma stem_suffix: "stem_of n @ suffix_of n = n"
  by (simp add: stem_of_def suffix_of_def)

lemma suffix_of_shape:
  "suffix_of n = [] \<or> (suffix_of n = CHR ''.'' # dot_tail n \<and> dot_tail n \<noteq> [])"
proof (cases "has_suffix n")
  case False
  then show ?thesis by (simp add: suffix_of_def)
next
  case True
  then have d: "CHR ''.'' \<in> set n" and ne: "dot_tail n \<noteq> []"
    by (simp_all add: has_suffix_def)
  from dot_tail_split [OF d] obtain r where
    r: "n = r @ CHR ''.'' # dot_tail n" "length r = length n - length (dot_tail n) - 1"
    by blast
  have "drop (length r) n = CHR ''.'' # dot_tail n"
    by (subst r(1)) simp
  then have "drop (length n - length (dot_tail n) - 1) n = CHR ''.'' # dot_tail n"
    using r(2) by simp
  with True ne show ?thesis by (simp add: suffix_of_def)
qed

lemma suffix_of_cases:
  obtains "suffix_of n = []" | t where "suffix_of n = CHR ''.'' # t" "CHR ''.'' \<notin> set t" "t \<noteq> []"
  using suffix_of_shape [of n] dot_tail_no_dot [of n] by blast



lemma not_temp_self: "\<not> is_temp_of v v"
proof
  assume "is_temp_of v v"
  then have "take (length (stem v @ ''_converted_'')) (name v) = stem v @ ''_converted_''"
    by (simp add: is_temp_of_def temp_pattern_matches_def starts_with_def)
  moreover have n: "name v = stem v @ suffix v"
    by (simp add: stem_def suffix_def stem_suffix)
  ultimately have "take (length (stem v @ ''_converted_'')) (stem v @ suffix v)
      = stem v @ ''_converted_''" by simp
  then have t: "take 11 (suffix v) = ''_converted_''" by simp
  show False
  proof (cases "name v" rule: suffix_of_cases)
    case 1
    with t show False by (simp add: suffix_def)
  next
    case (2 u)
    with t show False by (simp add: suffix_def)
  qed
qed



lemma lookup_write_file:
  "lookup (write_file p b f) q = (if q = p then Some \<lparr>data = b, readable = True\<rparr> else lookup f q)"
  by (simp add: lookup_def write_file_def update_conv')

lemma lookup_delete:
  "lookup (AList.delete p f) q = (if q = p then None else lookup f q)"
  by (simp add: lookup_def delete_conv')

lemma lookup_update:
  "lookup (AList.update p x f) q = (if q = p then Some x else lookup f q)"
  by (simp add: lookup_def update_conv')


lemma lookup_fold_delete:
  "lookup (fold AList.delete ks f) q = (if q \<in> set ks then None else lookup f q)"
  by (induction ks arbitrary: f) (auto simp: lookup_delete)

lemma lookup_absent: "q \<notin> fst ` set f \<Longrightarrow> lookup f q = None"
  by (simp add: lookup_def map_of_eq_None_iff)

lemma lookup_cleanup_temp_files:
  "lookup (cleanup_temp_files v f) q = (if is_temp_of v q then None else lookup f q)"
  by (auto simp: cleanup_temp_files_def glob_temp_def lookup_fold_delete lookup_absent)

lemma lookup_cleanup_self: "lookup (cleanup_temp_files v f) v = lookup f v"
  by (simp add: lookup_cleanup_temp_files not_temp_self)

lemma read_prefix_eof:
  "length d \<le> pos \<Longrightarrow> read_prefix c m d pos acc = acc"
  by (subst read_prefix.simps) simp

lemma read_prefix_blocks:
  assumes "0 < c"
  shows "j < n \<Longrightarrow> read_prefix c (c * n) d (c * j) acc = acc @ take (c * (n - j)) (drop (c * j) d)"
proof (induction "n - j" arbitrary: j acc)
  case 0
  then show ?case by simp
next
  case (Suc k)
  let ?chunk = "take c (drop (c * j) d)"
  show ?case
  proof (cases "?chunk = []")
    case True
    with assms have "drop (c * j) d = []" by (cases "drop (c * j) d") auto
    with True show ?thesis by (subst read_prefix.simps) simp
  next
    case ne: False
    show ?thesis
    proof (cases "length ?chunk = c")
      case full: True
      show ?thesis
      proof (cases "Suc j = n")
        case True
        then have "c * n = c * j + c" by (simp add: True [symmetric])
        then have "c * n \<le> c * j + length ?chunk" using full by simp
        moreover have "n - j = 1" using True by simp
        ultimately show ?thesis using ne by (subst read_prefix.simps) (simp add: Let_def)
      next
        case False
        with Suc.prems have lt: "Suc j < n" by simp
        then have "c * Suc j < c * n" using assms by (intro mult_less_mono2)
        then have nle: "\<not> c * n \<le> c * j + length ?chunk" using full by simp
        have k: "k = n - Suc j" using Suc.hyps(2) by simp
        have pos: "c * j + length ?chunk = c * Suc j" using full by simp
        have "read_prefix c (c * n) d (c * j) acc
            = read_prefix c (c * n) d (c * j + length ?chunk) (acc @ ?chunk)"
          using ne nle by (subst read_prefix.simps) (simp add: Let_def)
        also have "\<dots> = read_prefix c (c * n) d (c * Suc j) (acc @ ?chunk)"
          by (simp only: pos)
        also have "\<dots> = (acc @ ?chunk) @ take (c * (n - Suc j)) (drop (c * Suc j) d)"
          using Suc.hyps(1) [OF k lt] .
        also have "\<dots> = acc @ take (c + c * (n - Suc j)) (drop (c * j) d)"
          by (simp add: take_add add.commute)
        also have "c + c * (n - Suc j) = c * (n - j)"
          using lt by (metis Suc_diff_Suc Suc_lessD mult_Suc_right)
        finally show ?thesis .
      qed
    next
      case short: False
      then have len: "length (drop (c * j) d) < c" by auto
      then have chunk: "?chunk = drop (c * j) d" by simp
      have le: "c \<le> c * (n - j)" using Suc.prems by (cases "n - j") auto
      have nle: "\<not> c * n \<le> c * j + length ?chunk"
      proof -
        have "c * j + length ?chunk < c * j + c" using short by (simp add: min_def split: if_splits)
        also have "\<dots> = c * Suc j" by simp
        also have "\<dots> \<le> c * n" using Suc.prems by (intro mult_le_mono2) simp
        finally show ?thesis by simp
      qed
      have eof: "length d \<le> c * j + length ?chunk" using chunk by simp
      have "read_prefix c (c * n) d (c * j) acc
          = read_prefix c (c * n) d (c * j + length ?chunk) (acc @ ?chunk)"
        using ne nle by (subst read_prefix.simps) (simp add: Let_def)
      also have "\<dots> = acc @ ?chunk" by (rule read_prefix_eof [OF eof])
      also have "?chunk = take (c * (n - j)) (drop (c * j) d)"
      proof -
        have "length (drop (c * j) d) \<le> c * (n - j)" using len le by linarith
        then have "take (c * (n - j)) (drop (c * j) d) = drop (c * j) d" by (rule take_all)
        with chunk show ?thesis by simp
      qed
      finally show ?thesis .
    qed
  qed
qed

lemma read_prefix_default: "read_prefix 8192 (1024 * 1024) d 0 [] = take (1024 * 1024) d"
  using read_prefix_blocks [of 8192 0 128 d "[]"] by simp

lemma compute_file_hash_prefix:
  "compute_file_hash E v f =
     (case lookup f v of
        None \<Rightarrow> Inl IOError
      | Some x \<Rightarrow> if readable x then Inr (sha256_hex E (take (1024 * 1024) (data x))) else Inl IOError)"
  unfolding compute_file_hash_def read_prefix_default by (rule refl)

section \<open>The encoding tool and the Transcode Executor\<close>

lemma calls_run_ffmpeg:
  "calls (snd (run_ffmpeg E cmd src dst s)) = calls s @ [cmd]"
  by (simp add: run_ffmpeg_def split: prod.splits)

lemma fst_run_ffmpeg:
  "fst (run_ffmpeg E cmd src dst s) = fst (ffmpeg E cmd (lookup (files s) src))"
  by (simp add: run_ffmpeg_def split: prod.splits)

lemma files_run_ffmpeg:
  "files (snd (run_ffmpeg E cmd src dst s)) =
     (case snd (ffmpeg E cmd (lookup (files s) src)) of
        None \<Rightarrow> files s
      | Some b \<Rightarrow> write_file dst b (files s))"
  by (simp add: run_ffmpeg_def split: prod.splits)

lemma ffmpeg_gpu_timeout:
  "ffmpeg env_gpu_timeout (gpu_cmd movie_mkv movie_tmp hevc_info) x = (TimedOut, None)"
  by (simp add: env_gpu_timeout_def gpu_cmd_def)

lemma ffmpeg_gpu_fails:
  "ffmpeg env_gpu_fails (gpu_cmd movie_mkv movie_tmp hevc_info) x = (Exited 1, None)"
  by (simp add: env_gpu_fails_def env_gpu_timeout_def gpu_cmd_def)

lemma ffmpeg_gpu_no_output:
  "ffmpeg env_gpu_no_output (gpu_cmd movie_mkv movie_tmp hevc_info) x = (Exited 0, None)"
  by (simp add: env_gpu_no_output_def env_gpu_timeout_def gpu_cmd_def)

lemma movie_tmp_absent: "\<not> exists (files state0) movie_tmp"
  by (simp add: exists_def lookup_def state0_def movie_mkv_def movie_tmp_def)

text \<open>
  Claim C1, as the code has it: the CPU strategy runs when the GPU strategy exits with a
  non-zero status, or exits with status 0 and leaves no output file. When the GPU strategy
  runs into the timeout, \<open>convert_to_mp4\<close> returns \<open>False\<close> at once and the encoding
  tool has been run on the GPU command line only.
\<close>

theorem convert_to_mp4_cpu_fallback:
  assumes "ffmpeg E (gpu_cmd src dst i) (lookup (files s) src) = (r, out)"
  shows "(r = TimedOut \<longrightarrow>
            fst (convert_to_mp4 E src dst i s) = False
            \<and> calls (snd (convert_to_mp4 E src dst i s)) = calls s @ [gpu_cmd src dst i])
       \<and> ((\<exists>rc. r = Exited rc \<and> rc \<noteq> 0) \<or> (r = Exited 0 \<and> out = None \<and> \<not> exists (files s) dst) \<longrightarrow>
            calls (snd (convert_to_mp4 E src dst i s))
              = calls s @ [gpu_cmd src dst i, cpu_cmd src dst i])"
proof -
  obtain s1 where run: "run_ffmpeg E (gpu_cmd src dst i) src dst s = (r, s1)"
    using assms by (simp add: run_ffmpeg_def)
  have c1: "calls s1 = calls s @ [gpu_cmd src dst i]"
    using calls_run_ffmpeg [of E "gpu_cmd src dst i" src dst s] run by simp
  have f1: "out = None \<longrightarrow> files s1 = files s"
    using files_run_ffmpeg [of E "gpu_cmd src dst i" src dst s] run assms by simp
  show ?thesis
  proof (cases r)
    case TimedOut
    then show ?thesis using run c1 by (simp add: convert_to_mp4_def)
  next
    case (Exited rc)
    obtain r2 s2 where run2: "run_ffmpeg E (cpu_cmd src dst i) src dst s1 = (r2, s2)"
      by (cases "run_ffmpeg E (cpu_cmd src dst i) src dst s1") auto
    have c2: "calls s2 = calls s1 @ [cpu_cmd src dst i]"
      using calls_run_ffmpeg [of E "cpu_cmd src dst i" src dst s1] run2 by simp
    show ?thesis
      using Exited run run2 c1 c2 f1
      by (cases r2) (auto simp: convert_to_mp4_def)
  qed
qed

theorem convert_to_mp4_cpu_fallback_witness:
  "fst (convert_to_mp4 env_gpu_timeout movie_mkv movie_tmp hevc_info state0) = False
   \<and> calls (snd (convert_to_mp4 env_gpu_timeout movie_mkv movie_tmp hevc_info state0))
       = [gpu_cmd movie_mkv movie_tmp hevc_info]
   \<and> calls (snd (convert_to_mp4 env_gpu_fails movie_mkv movie_tmp hevc_info state0))
       = [gpu_cmd movie_mkv movie_tmp hevc_info, cpu_cmd movie_mkv movie_tmp hevc_info]
   \<and> calls (snd (convert_to_mp4 env_gpu_no_output movie_mkv movie_tmp hevc_info state0))
       = [gpu_cmd movie_mkv movie_tmp hevc_info, cpu_cmd movie_mkv movie_tmp hevc_info]"
  using convert_to_mp4_cpu_fallback [OF ffmpeg_gpu_timeout, where s = state0]
        convert_to_mp4_cpu_fallback [OF ffmpeg_gpu_fails, where s = state0]
        convert_to_mp4_cpu_fallback [OF ffmpeg_gpu_no_output, where s = state0]
        movie_tmp_absent
  by (simp add: state0_def)

text \<open>
  Claim C1 as the specification states it (a timeout of the GPU strategy is followed by
  the CPU strategy) fails on \<open>env_gpu_timeout\<close>.
\<close>

theorem gpu_timeout_skips_cpu:
  "\<not> (\<forall>E src dst i s.
        fst (ffmpeg E (gpu_cmd src dst i) (lookup (files s) src)) = TimedOut \<longrightarrow>
        cpu_cmd src dst i \<in> set (calls (snd (convert_to_mp4 E src dst i s))))"
proof
  assume a: "\<forall>E src dst i s.
        fst (ffmpeg E (gpu_cmd src dst i) (lookup (files s) src)) = TimedOut \<longrightarrow>
        cpu_cmd src dst i \<in> set (calls (snd (convert_to_mp4 E src dst i s)))"
  have t: "fst (ffmpeg env_gpu_timeout (gpu_cmd movie_mkv movie_tmp hevc_info)
             (lookup (files state0) movie_mkv)) = TimedOut"
    by (simp add: env_gpu_timeout_def gpu_cmd_def)
  have c: "convert_to_mp4 env_gpu_timeout movie_mkv movie_tmp hevc_info state0
             = (False, state0\<lparr>calls := [gpu_cmd movie_mkv movie_tmp hevc_info]\<rparr>)"
    by (simp add: convert_to_mp4_def run_ffmpeg_def env_gpu_timeout_def gpu_cmd_def state0_def)
  have n: "cpu_cmd movie_mkv movie_tmp hevc_info \<noteq> gpu_cmd movie_mkv movie_tmp hevc_info"
    by (simp add: cpu_cmd_def gpu_cmd_def)
  from a t have "cpu_cmd movie_mkv movie_tmp hevc_info
      \<in> set (calls (snd (convert_to_mp4 env_gpu_timeout movie_mkv movie_tmp hevc_info state0)))"
    by blast
  with c n show False by simp
qed

lemma run_ffmpeg_sets:
  "processed_set (snd (run_ffmpeg E cmd src dst s)) = processed_set s"
  "processed_hashes (snd (run_ffmpeg E cmd src dst s)) = processed_hashes s"
  by (simp_all add: run_ffmpeg_def split: prod.splits)


lemma convert_to_mp4_sets:
  "processed_set (snd (convert_to_mp4 E src dst i s)) = processed_set s"
  "processed_hashes (snd (convert_to_mp4 E src dst i s)) = processed_hashes s"
proof -
  obtain r s1 where r1: "run_ffmpeg E (gpu_cmd src dst i) src dst s = (r, s1)"
    by (cases "run_ffmpeg E (gpu_cmd src dst i) src dst s") auto
  obtain r2 s2 where r2: "run_ffmpeg E (cpu_cmd src dst i) src dst s1 = (r2, s2)"
    by (cases "run_ffmpeg E (cpu_cmd src dst i) src dst s1") auto
  have a: "processed_set s1 = processed_set s" "processed_hashes s1 = processed_hashes s"
    using run_ffmpeg_sets [of E "gpu_cmd src dst i" src dst s] r1 by simp_all
  have b: "processed_set s2 = processed_set s1" "processed_hashes s2 = processed_hashes s1"
    using run_ffmpeg_sets [of E "cpu_cmd src dst i" src dst s1] r2 by simp_all
  show "processed_set (snd (convert_to_mp4 E src dst i s)) = processed_set s"
    using r1 r2 a b by (simp add: convert_to_mp4_def split: proc_result.splits)
  show "processed_hashes (snd (convert_to_mp4 E src dst i s)) = processed_hashes s"
    using r1 r2 a b by (simp add: convert_to_mp4_def split: proc_result.splits)
qed



lemma convert_to_mp4_True_exists:
  "convert_to_mp4 E src dst i s = (True, s1) \<Longrightarrow> exists (files s1) dst"
  by (auto simp: convert_to_mp4_def split: prod.splits proc_result.splits if_splits)




section \<open>What the Subtitle Extractor leaves alone\<close>

lemma extract_text_sets:
  "processed_set (fst (extract_text_subs_if_any E v ts s)) = processed_set s
   \<and> processed_hashes (fst (extract_text_subs_if_any E v ts s)) = processed_hashes s"
proof (induction ts arbitrary: s)
  case Nil
  show ?case by simp
next
  case (Cons t ts)
  obtain k cd l where t: "t = (k, cd, l)" by (cases t) auto
  let ?out = "sub_out_path v k l ''.srt''"
  obtain r s1 where run: "run_ffmpeg E (text_sub_cmd v k ?out) v ?out s = (r, s1)"
    by (cases "run_ffmpeg E (text_sub_cmd v k ?out) v ?out s") auto
  have s1: "processed_set s1 = processed_set s" "processed_hashes s1 = processed_hashes s"
    using run_ffmpeg_sets [of E "text_sub_cmd v k ?out" v ?out s] run by simp_all
  show ?case
    using t run s1 Cons.IH
    by (auto simp: Let_def split: proc_result.splits sum.splits)
qed

lemma extract_image_sets:
  "processed_set (fst (extract_image_subs_if_any E v ts s)) = processed_set s
   \<and> processed_hashes (fst (extract_image_subs_if_any E v ts s)) = processed_hashes s"
proof (induction ts arbitrary: s)
  case Nil
  show ?case by simp
next
  case (Cons t ts)
  obtain k cd l where t: "t = (k, cd, l)" by (cases t) auto
  let ?out = "sub_out_path v k l ''.sup''"
  obtain r s1 where run: "run_ffmpeg E (image_sub_cmd v k ?out) v ?out s = (r, s1)"
    by (cases "run_ffmpeg E (image_sub_cmd v k ?out) v ?out s") auto
  have s1: "processed_set s1 = processed_set s" "processed_hashes s1 = processed_hashes s"
    using run_ffmpeg_sets [of E "image_sub_cmd v k ?out" v ?out s] run by simp_all
  show ?case
    using t run s1 Cons.IH
    by (auto simp: Let_def split: proc_result.splits)
qed






section \<open>The branches of \<^verbatim>\<open>process_video\<close>\<close>

lemma compute_file_hash_cong:
  "lookup f v = lookup f' v \<Longrightarrow> compute_file_hash E v f = compute_file_hash E v f'"
  by (simp add: compute_file_hash_def)

lemma run_ffprobe_cong:
  "lookup f v = lookup f' v \<Longrightarrow> run_ffprobe E t v f = run_ffprobe E t v f'"
  by (simp add: run_ffprobe_def)

lemma check_video_info_cong:
  assumes "lookup f v = lookup f' v"
  shows "check_video_info E v f = check_video_info E v f'"
  unfolding check_video_info_def
  by (simp add: run_ffprobe_cong [OF assms] split: sum.splits)

lemma hash_after_cleanup:
  "compute_file_hash E v (cleanup_temp_files v f) = compute_file_hash E v f"
  by (rule compute_file_hash_cong) (rule lookup_cleanup_self)

lemma info_after_cleanup:
  "check_video_info E v (cleanup_temp_files v f) = check_video_info E v f"
  by (rule check_video_info_cong) (rule lookup_cleanup_self)

lemma hash_ok_exists: "compute_file_hash E v f = Inr h \<Longrightarrow> exists f v"
  by (auto simp: compute_file_hash_def exists_def split: option.splits if_splits)

lemma process_video_handled:
  "path_str v \<in> processed_set s \<Longrightarrow> process_video E v s = (s, None)"
  by (simp add: process_video_def)

lemma process_video_hash_error:
  assumes "path_str v \<notin> processed_set s" "compute_file_hash E v (files s) = Inl e"
  shows "process_video E v s = (after_cleanup v s, Some e)"
  using assms by (simp add: process_video_def after_cleanup_def hash_after_cleanup)

lemma process_video_duplicate:
  assumes "path_str v \<notin> processed_set s" "compute_file_hash E v (files s) = Inr h"
    "h \<noteq> []" "h \<in> processed_hashes s"
  shows "process_video E v s =
    (mark_handled v ((after_cleanup v s)\<lparr>files := AList.delete v (cleanup_temp_files v (files s))\<rparr>), None)"
proof -
  have "exists (cleanup_temp_files v (files s)) v"
    using hash_ok_exists [OF assms(2)] by (simp add: exists_def lookup_cleanup_self)
  then show ?thesis
    using assms by (simp add: process_video_def after_cleanup_def hash_after_cleanup unlink_def)
qed

lemma process_video_probe_error:
  assumes "path_str v \<notin> processed_set s" "compute_file_hash E v (files s) = Inr h"
    "\<not> (h \<noteq> [] \<and> h \<in> processed_hashes s)" "check_video_info E v (files s) = Inl e"
  shows "process_video E v s = (after_hash v h s, Some e)"
  using assms
  by (auto simp: process_video_def after_cleanup_def after_hash_def hash_after_cleanup
      info_after_cleanup Let_def)

lemma process_video_probed:
  assumes "path_str v \<notin> processed_set s" "compute_file_hash E v (files s) = Inr h"
    "\<not> (h \<noteq> [] \<and> h \<in> processed_hashes s)" "check_video_info E v (files s) = Inr i"
  shows "process_video E v s =
    (if video_codec i = ''unknown'' \<and> audio_codec i = ''unknown''
     then (mark_handled v (after_hash v h s), None)
     else if SKIP_4K_OR_HDR \<and> is_4k_or_hdr (i_width i) (i_height i) (i_color_transfer i)
     then (mark_handled v (after_hash v h s), None)
     else if already_optimized v i then extract_and_mark E v v i (after_hash v h s)
     else convert_and_finish E v i (after_hash v h s))"
  using assms
  by (auto simp: process_video_def after_cleanup_def after_hash_def hash_after_cleanup
      info_after_cleanup Let_def)

lemma mark_handled_simps:
  "files (mark_handled p s) = files s"
  "calls (mark_handled p s) = calls s"
  "processed_hashes (mark_handled p s) = processed_hashes s"
  "processed_set (mark_handled p s) = insert (path_str p) (processed_set s)"
  by (simp_all add: mark_handled_def)

lemma after_hash_simps:
  "files (after_hash v h s) = cleanup_temp_files v (files s)"
  "calls (after_hash v h s) = calls s"
  "processed_set (after_hash v h s) = processed_set s"
  "processed_hashes (after_hash v h s) = (if h \<noteq> [] then insert h (processed_hashes s) else processed_hashes s)"
  by (simp_all add: after_hash_def after_cleanup_def)

lemma after_cleanup_simps:
  "files (after_cleanup v s) = cleanup_temp_files v (files s)"
  "calls (after_cleanup v s) = calls s"
  "processed_set (after_cleanup v s) = processed_set s"
  "processed_hashes (after_cleanup v s) = processed_hashes s"
  by (simp_all add: after_cleanup_def)



lemma extract_and_mark_sets:
  "processed_hashes (fst (extract_and_mark E v fin i s)) = processed_hashes s"
  "processed_set s \<subseteq> processed_set (fst (extract_and_mark E v fin i s))"
  "processed_set (fst (extract_and_mark E v fin i s))
     \<subseteq> insert (path_str fin) (insert (path_str v) (processed_set s))"
  "snd (extract_and_mark E v fin i s) = None \<Longrightarrow>
     processed_set (fst (extract_and_mark E v fin i s))
       = insert (path_str fin) (insert (path_str v) (processed_set s))"
proof -
  obtain s1 r1 where e1: "extract_text_subs_if_any E fin (text_sub_tracks i) s = (s1, r1)"
    by (cases "extract_text_subs_if_any E fin (text_sub_tracks i) s") auto
  obtain s2 r2 where e2: "extract_image_subs_if_any E fin (image_sub_tracks i) s1 = (s2, r2)"
    by (cases "extract_image_subs_if_any E fin (image_sub_tracks i) s1") auto
  have k1: "processed_set s1 = processed_set s" "processed_hashes s1 = processed_hashes s"
    using extract_text_sets [of E fin "text_sub_tracks i" s] e1 by simp_all
  have k2: "processed_set s2 = processed_set s" "processed_hashes s2 = processed_hashes s"
    using extract_image_sets [of E fin "image_sub_tracks i" s1] e2 k1 by simp_all
  show "processed_hashes (fst (extract_and_mark E v fin i s)) = processed_hashes s"
    using e1 e2 k1 k2 by (cases r1; cases r2) (simp_all add: extract_and_mark_def mark_handled_simps)
  show "processed_set s \<subseteq> processed_set (fst (extract_and_mark E v fin i s))"
    using e1 e2 k1 k2 by (cases r1; cases r2) (auto simp: extract_and_mark_def mark_handled_simps)
  show "processed_set (fst (extract_and_mark E v fin i s))
     \<subseteq> insert (path_str fin) (insert (path_str v) (processed_set s))"
    using e1 e2 k1 k2 by (cases r1; cases r2) (auto simp: extract_and_mark_def mark_handled_simps)
  show "processed_set (fst (extract_and_mark E v fin i s))
       = insert (path_str fin) (insert (path_str v) (processed_set s))"
    if "snd (extract_and_mark E v fin i s) = None"
    using that e1 e2 k1 k2 by (cases r1; cases r2) (auto simp: extract_and_mark_def mark_handled_simps)
qed

lemma convert_and_finish_failed:
  assumes "fst (convert_to_mp4 E v (get_temp_conversion_filename E v) i s) = False"
  shows "convert_and_finish E v i s
    = (mark_handled v (snd (convert_to_mp4 E v (get_temp_conversion_filename E v) i s)), None)"
  using assms
  by (cases "convert_to_mp4 E v (get_temp_conversion_filename E v) i s")
     (simp add: convert_and_finish_def Let_def)

lemma convert_and_finish_sets:
  "processed_hashes (fst (convert_and_finish E v i s)) = processed_hashes s"
  "processed_set s \<subseteq> processed_set (fst (convert_and_finish E v i s))"
  "processed_set (fst (convert_and_finish E v i s))
     \<subseteq> insert (path_str (with_suffix v ''.mp4'')) (insert (path_str v) (processed_set s))"
  "snd (convert_and_finish E v i s) = None \<Longrightarrow> path_str v \<in> processed_set (fst (convert_and_finish E v i s))"
proof -
  let ?t = "get_temp_conversion_filename E v"
  let ?fin = "with_suffix v ''.mp4''"
  obtain ok s1 where c: "convert_to_mp4 E v ?t i s = (ok, s1)"
    by (cases "convert_to_mp4 E v ?t i s") auto
  have k1: "processed_set s1 = processed_set s" "processed_hashes s1 = processed_hashes s"
    using convert_to_mp4_sets [of E v ?t i s] c by simp_all
  have em: "processed_hashes (fst (extract_and_mark E v ?fin i2 (s1\<lparr>files := f2\<rparr>))) = processed_hashes s
    \<and> processed_set s \<subseteq> processed_set (fst (extract_and_mark E v ?fin i2 (s1\<lparr>files := f2\<rparr>)))
    \<and> processed_set (fst (extract_and_mark E v ?fin i2 (s1\<lparr>files := f2\<rparr>)))
         \<subseteq> insert (path_str ?fin) (insert (path_str v) (processed_set s))
    \<and> (snd (extract_and_mark E v ?fin i2 (s1\<lparr>files := f2\<rparr>)) = None \<longrightarrow>
         path_str v \<in> processed_set (fst (extract_and_mark E v ?fin i2 (s1\<lparr>files := f2\<rparr>))))" for i2 f2
    using extract_and_mark_sets [where E = E and v = v and fin = ?fin and i = i2
        and s = "s1\<lparr>files := f2\<rparr>"] k1 by auto
  show "processed_hashes (fst (convert_and_finish E v i s)) = processed_hashes s"
    using c k1 em
    by (auto simp: convert_and_finish_def Let_def mark_handled_simps split: sum.splits bool.splits)
  show "processed_set s \<subseteq> processed_set (fst (convert_and_finish E v i s))"
    using c k1 em
    by (auto simp: convert_and_finish_def Let_def mark_handled_simps split: sum.splits bool.splits)
  show "processed_set (fst (convert_and_finish E v i s))
     \<subseteq> insert (path_str (with_suffix v ''.mp4'')) (insert (path_str v) (processed_set s))"
    using c k1 em
    by (auto simp: convert_and_finish_def Let_def mark_handled_simps split: sum.splits bool.splits)
  show "path_str v \<in> processed_set (fst (convert_and_finish E v i s))"
    if "snd (convert_and_finish E v i s) = None"
    using that c k1 em
    by (auto simp: convert_and_finish_def Let_def mark_handled_simps split: sum.splits bool.splits)
qed

section \<open>The 4K/HDR policy\<close>

lemma state0_hash:
  "compute_file_hash E movie_mkv (files state0) = Inr (sha256_hex E ''mkv bytes'')"
  by (simp add: compute_file_hash_prefix state0_def lookup_def)

lemma env_4k_info: "check_video_info env_4k movie_mkv f = Inr info_4k"
  by (simp add: check_video_info_def run_ffprobe_def env_4k_def probe_with_def video_part_def
      audio_part_def video_stream_def other_stream_def get_or_def info_4k_def info0_def
      enumerate_eq_zip)

text \<open>
  Claim C8: a file that the pipeline has probed (it is not handled yet, its fingerprint
  could be read and is not a duplicate) and whose profile is 4K or HDR, with the policy
  flag on, is not converted: the encoding tool is not run, the file is still on disk with
  the same bytes, and its identity is in the handled set.
\<close>

theorem skip_4k_or_hdr_leaves_file:
  assumes "path_str v \<notin> processed_set s"
    and "compute_file_hash E v (files s) = Inr h"
    and "\<not> (h \<noteq> [] \<and> h \<in> processed_hashes s)"
    and "check_video_info E v (files s) = Inr i"
    and "SKIP_4K_OR_HDR"
    and "(3840 \<le> i_width i \<and> 2160 \<le> i_height i)
         \<or> i_color_transfer i \<in> {''smpte2084'', ''arib-std-b67'', ''pq''}"
  shows "snd (process_video E v s) = None
       \<and> calls (fst (process_video E v s)) = calls s
       \<and> lookup (files (fst (process_video E v s))) v = lookup (files s) v
       \<and> lookup (files s) v \<noteq> None
       \<and> processed_set (fst (process_video E v s)) = insert (path_str v) (processed_set s)"
proof -
  have k: "is_4k_or_hdr (i_width i) (i_height i) (i_color_transfer i)"
    using assms(6) by (auto simp: is_4k_or_hdr_def)
  have pv: "process_video E v s = (mark_handled v (after_hash v h s), None)"
    using process_video_probed [OF assms(1-4)] k assms(5) by simp
  have "lookup (files s) v \<noteq> None"
    using hash_ok_exists [OF assms(2)] by (simp add: exists_def)
  then show ?thesis
    by (simp add: pv mark_handled_simps after_hash_simps lookup_cleanup_self)
qed

theorem skip_4k_or_hdr_leaves_file_witness:
  "process_video env_4k movie_mkv state0
     = (mark_handled movie_mkv (after_hash movie_mkv ''sha:mkv bytes'' state0), None)
   \<and> calls (fst (process_video env_4k movie_mkv state0)) = []
   \<and> lookup (files (fst (process_video env_4k movie_mkv state0))) movie_mkv
        = Some \<lparr>data = ''mkv bytes'', readable = True\<rparr>
   \<and> processed_set (fst (process_video env_4k movie_mkv state0)) = {path_str movie_mkv}"
proof -
  have a: "path_str movie_mkv \<notin> processed_set state0" by (simp add: state0_def)
  have b: "compute_file_hash env_4k movie_mkv (files state0) = Inr ''sha:mkv bytes''"
    by (simp add: state0_hash env_4k_def env_gpu_timeout_def)
  have c: "\<not> (''sha:mkv bytes'' \<noteq> [] \<and> ''sha:mkv bytes'' \<in> processed_hashes state0)"
    by (simp add: state0_def)
  have d: "SKIP_4K_OR_HDR" by (simp add: SKIP_4K_OR_HDR_def)
  have e: "(3840 \<le> i_width info_4k \<and> 2160 \<le> i_height info_4k)
         \<or> i_color_transfer info_4k \<in> {''smpte2084'', ''arib-std-b67'', ''pq''}"
    by (simp add: info_4k_def)
  have u: "is_4k_or_hdr (i_width info_4k) (i_height info_4k) (i_color_transfer info_4k)"
    by (simp add: info_4k_def is_4k_or_hdr_def)
  have pv: "process_video env_4k movie_mkv state0
     = (mark_handled movie_mkv (after_hash movie_mkv ''sha:mkv bytes'' state0), None)"
    using process_video_probed [OF a b c env_4k_info] u d by (simp add: info_4k_def info0_def)
  have f: "lookup (files state0) movie_mkv = Some \<lparr>data = ''mkv bytes'', readable = True\<rparr>"
    by (simp add: state0_def lookup_def)
  from skip_4k_or_hdr_leaves_file [OF a b c env_4k_info d e] pv f
  show ?thesis by (simp add: state0_def)
qed

section \<open>A failed conversion\<close>

lemma env_encoder_fails_info: "check_video_info env_encoder_fails movie_mkv f = Inr info_720"
  by (simp add: check_video_info_def run_ffprobe_def env_encoder_fails_def probe_with_def
      video_part_def audio_part_def video_stream_def other_stream_def get_or_def info_720_def
      info0_def enumerate_eq_zip)

lemma movie_mkv_stem: "stem movie_mkv = ''movie''"
  by (simp add: stem_def stem_of_def has_suffix_def dot_tail_def movie_mkv_def)

lemma movie_mkv_suffix: "suffix movie_mkv = ''.mkv''"
  by (simp add: suffix_def suffix_of_def has_suffix_def dot_tail_def movie_mkv_def)

lemma movie_mkv_dir: "dir movie_mkv = [''F:'', ''TV'']"
  by (simp add: movie_mkv_def)




section \<open>The order of the decisions\<close>

lemma state0_cleanup: "cleanup_temp_files movie_mkv (files state0) = files state0"
  by (simp add: cleanup_temp_files_def glob_temp_def state0_def is_temp_of_def
      temp_pattern_matches_def movie_mkv_stem starts_with_def movie_mkv_def)

text \<open>
  Claim C6: \<open>process_video\<close> takes its decisions in the order of the specification's
  decision function, first match winning. An identity already handled is skipped before
  anything is read; a fingerprint already seen deletes the file before it is probed; then,
  on the probed profile: both codecs unknown, the 4K/HDR policy, already optimal (no
  conversion; the call goes on to the subtitle extraction), and otherwise the conversion.
\<close>

theorem process_video_decision_order:
  "(spec_decide (path_str v) (lower (suffix v)) i h s = Skip already_processed \<longrightarrow>
      process_video E v s = (s, None))
   \<and> (compute_file_hash E v (files s) = Inr h \<and> h \<noteq> [] \<longrightarrow>
        (spec_decide (path_str v) (lower (suffix v)) i h s = Skip duplicate \<longrightarrow>
           process_video E v s
             = (mark_handled v
                  ((after_cleanup v s)\<lparr>files := AList.delete v (cleanup_temp_files v (files s))\<rparr>),
                None))
      \<and> (check_video_info E v (files s) = Inr i \<longrightarrow>
           (spec_decide (path_str v) (lower (suffix v)) i h s = Skip unprobeable \<longrightarrow>
              process_video E v s = (mark_handled v (after_hash v h s), None))
         \<and> (spec_decide (path_str v) (lower (suffix v)) i h s = Skip policy_4k_hdr \<longrightarrow>
              process_video E v s = (mark_handled v (after_hash v h s), None))
         \<and> (spec_decide (path_str v) (lower (suffix v)) i h s = Skip already_optimal \<longrightarrow>
              process_video E v s = extract_and_mark E v v i (after_hash v h s))
         \<and> (spec_decide (path_str v) (lower (suffix v)) i h s = Convert \<longrightarrow>
              process_video E v s = convert_and_finish E v i (after_hash v h s))))"
proof -
  let ?d = "spec_decide (path_str v) (lower (suffix v)) i h s"
  have one: "?d = Skip already_processed \<longrightarrow> process_video E v s = (s, None)"
    by (auto simp: spec_decide_def process_video_handled split: if_splits)
  have two: "process_video E v s
      = (mark_handled v
           ((after_cleanup v s)\<lparr>files := AList.delete v (cleanup_temp_files v (files s))\<rparr>), None)"
    if "compute_file_hash E v (files s) = Inr h" "h \<noteq> []" "?d = Skip duplicate"
  proof -
    from that(3) have "path_str v \<notin> processed_set s" "h \<in> processed_hashes s"
      by (auto simp: spec_decide_def split: if_splits)
    then show ?thesis using that(1,2) by (simp add: process_video_duplicate)
  qed
  have rest: "(?d = Skip unprobeable \<longrightarrow>
              process_video E v s = (mark_handled v (after_hash v h s), None))
         \<and> (?d = Skip policy_4k_hdr \<longrightarrow>
              process_video E v s = (mark_handled v (after_hash v h s), None))
         \<and> (?d = Skip already_optimal \<longrightarrow>
              process_video E v s = extract_and_mark E v v i (after_hash v h s))
         \<and> (?d = Convert \<longrightarrow>
              process_video E v s = convert_and_finish E v i (after_hash v h s))"
    if hh: "compute_file_hash E v (files s) = Inr h" "h \<noteq> []"
      and ii: "check_video_info E v (files s) = Inr i"
  proof (cases "path_str v \<in> processed_set s \<or> h \<in> processed_hashes s")
    case True
    then show ?thesis by (auto simp: spec_decide_def)
  next
    case False
    then have a: "path_str v \<notin> processed_set s" and b: "\<not> (h \<noteq> [] \<and> h \<in> processed_hashes s)"
      by simp_all
    have k: "is_4k_or_hdr (i_width i) (i_height i) (i_color_transfer i)
        = ((3840 \<le> i_width i \<and> 2160 \<le> i_height i)
           \<or> i_color_transfer i \<in> {''smpte2084'', ''arib-std-b67'', ''pq''})"
      by (auto simp: is_4k_or_hdr_def)
    have d: "?d =
      (if video_codec i = ''unknown'' \<and> audio_codec i = ''unknown'' then Skip unprobeable
       else if SKIP_4K_OR_HDR \<and> is_4k_or_hdr (i_width i) (i_height i) (i_color_transfer i)
       then Skip policy_4k_hdr
       else if already_optimized v i then Skip already_optimal else Convert)"
      using False by (auto simp: spec_decide_def already_optimized_def k)
    show ?thesis
      unfolding process_video_probed [OF a hh(1) b ii] d by simp
  qed
  from one two rest show ?thesis by blast
qed


theorem process_video_decision_order_witness:
  "spec_decide (path_str movie_mkv) (lower (suffix movie_mkv)) info_4k ''sha:mkv bytes'' state_handled
     = Skip already_processed
   \<and> process_video env_4k movie_mkv state_handled = (state_handled, None)
   \<and> spec_decide (path_str movie_mkv) (lower (suffix movie_mkv)) info_4k ''sha:mkv bytes'' state_seen
     = Skip duplicate
   \<and> process_video env_4k movie_mkv state_seen
     = (state_seen\<lparr>files := [], processed_set := {path_str movie_mkv}\<rparr>, None)
   \<and> spec_decide (path_str movie_mkv) (lower (suffix movie_mkv)) info_4k ''sha:mkv bytes'' state0
     = Skip policy_4k_hdr
   \<and> process_video env_4k movie_mkv state0
     = (state0\<lparr>processed_set := {path_str movie_mkv}, processed_hashes := {''sha:mkv bytes''}\<rparr>, None)
   \<and> spec_decide (path_str movie_mkv) (lower (suffix movie_mkv)) info_720 ''sha:mkv bytes'' state0
     = Convert
   \<and> process_video env_encoder_fails movie_mkv state0
     = convert_and_finish env_encoder_fails movie_mkv info_720
         (state0\<lparr>processed_hashes := {''sha:mkv bytes''}\<rparr>)"
proof -
  have h4: "compute_file_hash env_4k movie_mkv (files state0) = Inr ''sha:mkv bytes''"
    by (simp add: state0_hash env_4k_def env_gpu_timeout_def)
  have hf: "compute_file_hash env_encoder_fails movie_mkv (files state0) = Inr ''sha:mkv bytes''"
    by (simp add: state0_hash env_encoder_fails_def env_gpu_timeout_def)
  have fs: "files state_handled = files state0" "files state_seen = files state0"
    by (simp_all add: state_handled_def state_seen_def)
  have d1: "spec_decide (path_str movie_mkv) (lower (suffix movie_mkv)) info_4k ''sha:mkv bytes''
      state_handled = Skip already_processed"
    by (simp add: spec_decide_def state_handled_def)
  have d2: "spec_decide (path_str movie_mkv) (lower (suffix movie_mkv)) info_4k ''sha:mkv bytes''
      state_seen = Skip duplicate"
    by (simp add: spec_decide_def state_seen_def state0_def)
  have d3: "spec_decide (path_str movie_mkv) (lower (suffix movie_mkv)) info_4k ''sha:mkv bytes''
      state0 = Skip policy_4k_hdr"
    by (simp add: spec_decide_def state0_def info_4k_def info0_def SKIP_4K_OR_HDR_def)
  have d4: "spec_decide (path_str movie_mkv) (lower (suffix movie_mkv)) info_720 ''sha:mkv bytes''
      state0 = Convert"
    by (simp add: spec_decide_def state0_def info_720_def info0_def)
  have p1: "process_video env_4k movie_mkv state_handled = (state_handled, None)"
    using process_video_decision_order [of movie_mkv info_4k "''sha:mkv bytes''" state_handled env_4k]
      d1 by simp
  have p2: "process_video env_4k movie_mkv state_seen
     = (state_seen\<lparr>files := [], processed_set := {path_str movie_mkv}\<rparr>, None)"
    using process_video_decision_order [of movie_mkv info_4k "''sha:mkv bytes''" state_seen env_4k]
      d2 h4 fs
    by (simp add: mark_handled_def after_cleanup_def state0_cleanup)
       (simp add: state_seen_def state0_def)
  have p3: "process_video env_4k movie_mkv state0
     = (state0\<lparr>processed_set := {path_str movie_mkv}, processed_hashes := {''sha:mkv bytes''}\<rparr>, None)"
    using process_video_decision_order [of movie_mkv info_4k "''sha:mkv bytes''" state0 env_4k]
      d3 h4 env_4k_info
    by (simp add: mark_handled_def after_hash_def after_cleanup_def state0_cleanup)
       (simp add: state0_def)
  have p4: "process_video env_encoder_fails movie_mkv state0
     = convert_and_finish env_encoder_fails movie_mkv info_720
         (state0\<lparr>processed_hashes := {''sha:mkv bytes''}\<rparr>)"
    using process_video_decision_order [of movie_mkv info_720 "''sha:mkv bytes''" state0
        env_encoder_fails]
      d4 hf env_encoder_fails_info
    by (simp add: after_hash_def after_cleanup_def state0_cleanup)
       (simp add: state0_def)
  from d1 d2 d3 d4 p1 p2 p3 p4 show ?thesis by blast
qed

section \<open>The effects of the skips\<close>




lemma movie_mp4_dir: "dir movie_mp4 = [''F:'', ''TV'']"
  by (simp add: movie_mp4_def)













section \<open>The index of a subtitle track\<close>












section \<open>The handled set only grows\<close>

lemma process_video_sets:
  "processed_set s \<subseteq> processed_set (fst (process_video E v s))
   \<and> processed_set (fst (process_video E v s))
       \<subseteq> insert (path_str (with_suffix v ''.mp4'')) (insert (path_str v) (processed_set s))
   \<and> processed_hashes s \<subseteq> processed_hashes (fst (process_video E v s))
   \<and> (snd (process_video E v s) = None \<longrightarrow> path_str v \<in> processed_set (fst (process_video E v s)))"
proof (cases "path_str v \<in> processed_set s")
  case True
  then show ?thesis by (auto simp: process_video_handled)
next
  case nh: False
  show ?thesis
  proof (cases "compute_file_hash E v (files s)")
    case (Inl e)
    show ?thesis
      by (auto simp: process_video_hash_error [OF nh Inl] after_cleanup_simps)
  next
    case (Inr h)
    show ?thesis
    proof (cases "h \<noteq> [] \<and> h \<in> processed_hashes s")
      case True
      then have pv: "process_video E v s =
        (mark_handled v ((after_cleanup v s)\<lparr>files := AList.delete v (cleanup_temp_files v (files s))\<rparr>), None)"
        using process_video_duplicate [OF nh Inr] by simp
      show ?thesis
        by (auto simp: pv mark_handled_simps after_cleanup_simps)
    next
      case nd: False
      show ?thesis
      proof (cases "check_video_info E v (files s)")
        case (Inl e)
        show ?thesis
          by (auto simp: process_video_probe_error [OF nh Inr nd Inl] after_hash_simps)
      next
        case (Inr i)
        note pv = process_video_probed [OF nh \<open>compute_file_hash E v (files s) = Inr h\<close> nd Inr]
        let ?s2 = "after_hash v h s"
        have s2: "processed_set ?s2 = processed_set s"
          "processed_hashes s \<subseteq> processed_hashes ?s2"
          by (auto simp: after_hash_simps)
        have em: "processed_set s \<subseteq> processed_set (fst (extract_and_mark E v v i ?s2))
          \<and> processed_set (fst (extract_and_mark E v v i ?s2))
              \<subseteq> insert (path_str (with_suffix v ''.mp4'')) (insert (path_str v) (processed_set s))
          \<and> processed_hashes s \<subseteq> processed_hashes (fst (extract_and_mark E v v i ?s2))
          \<and> (snd (extract_and_mark E v v i ?s2) = None \<longrightarrow>
               path_str v \<in> processed_set (fst (extract_and_mark E v v i ?s2)))"
          using extract_and_mark_sets [where E = E and v = v and fin = v and i = i and s = ?s2] s2
          by auto
        have cf: "processed_set s \<subseteq> processed_set (fst (convert_and_finish E v i ?s2))
          \<and> processed_set (fst (convert_and_finish E v i ?s2))
              \<subseteq> insert (path_str (with_suffix v ''.mp4'')) (insert (path_str v) (processed_set s))
          \<and> processed_hashes s \<subseteq> processed_hashes (fst (convert_and_finish E v i ?s2))
          \<and> (snd (convert_and_finish E v i ?s2) = None \<longrightarrow>
               path_str v \<in> processed_set (fst (convert_and_finish E v i ?s2)))"
          using convert_and_finish_sets [where E = E and v = v and i = i and s = ?s2] s2
          by auto
        have mh: "processed_set s \<subseteq> processed_set (mark_handled v ?s2)
          \<and> processed_set (mark_handled v ?s2)
              \<subseteq> insert (path_str (with_suffix v ''.mp4'')) (insert (path_str v) (processed_set s))
          \<and> processed_hashes s \<subseteq> processed_hashes (mark_handled v ?s2)
          \<and> path_str v \<in> processed_set (mark_handled v ?s2)"
          using s2 by (auto simp: mark_handled_simps)
        show ?thesis
          unfolding pv using em cf mh by (simp split: if_splits)
      qed
    qed
  qed
qed

lemma process_all_sets:
  "processed_set s \<subseteq> processed_set (fst (process_all E vs s))
   \<and> processed_hashes s \<subseteq> processed_hashes (fst (process_all E vs s))
   \<and> (finite (processed_set s) \<longrightarrow> finite (processed_set (fst (process_all E vs s))))"
proof (induction vs arbitrary: s)
  case Nil
  show ?case by simp
next
  case (Cons v vs)
  obtain s1 r1 where p: "process_video E v s = (s1, r1)" by (cases "process_video E v s") auto
  obtain s2 r2 where q: "process_all E vs s1 = (s2, r2)" by (cases "process_all E vs s1") auto
  have a: "processed_set s \<subseteq> processed_set s1" "processed_hashes s \<subseteq> processed_hashes s1"
    "processed_set s1 \<subseteq> insert (path_str (with_suffix v ''.mp4'')) (insert (path_str v) (processed_set s))"
    using process_video_sets [of s E v] p by auto
  have fin: "finite (processed_set s) \<longrightarrow> finite (processed_set s1)"
    using a(3) by (auto intro: finite_subset)
  have b: "processed_set s1 \<subseteq> processed_set s2" "processed_hashes s1 \<subseteq> processed_hashes s2"
    "finite (processed_set s1) \<longrightarrow> finite (processed_set s2)"
    using Cons.IH [of s1] q by auto
  show ?case
    using a b fin by (auto simp: p q)
qed


lemma strip_no_outer_space:
  "strip s = [] \<or> (\<not> is_space (hd (strip s)) \<and> \<not> is_space (last (strip s)))"
proof (cases "strip s = []")
  case True
  then show ?thesis by simp
next
  case False
  let ?z = "dropWhile is_space s"
  let ?w = "dropWhile is_space (rev ?z)"
  have y: "strip s = rev ?w" by (simp add: strip_def)
  with False have w: "?w \<noteq> []" by simp
  then have hw: "\<not> is_space (hd ?w)" by (rule hd_dropWhile)
  have z: "?z \<noteq> []"
  proof
    assume e: "?z = []"
    have "?w = dropWhile is_space (rev [])" by (simp only: e)
    then have "?w = []" by simp
    with w show False by (simp only: not_True_eq_False)
  qed
  then have hz: "\<not> is_space (hd ?z)" by (rule hd_dropWhile)
  have l1: "last (takeWhile is_space (rev ?z) @ ?w) = last ?w"
    using w by (rule last_appendR)
  have l2: "takeWhile is_space (rev ?z) @ ?w = rev ?z"
    by (rule takeWhile_dropWhile_id)
  have "last (rev ?z) = last ?w" using l1 by (simp only: l2)
  moreover have "last (rev ?z) = hd ?z" by (rule last_rev)
  ultimately have "last ?w = hd ?z" by (simp only:)
  then have "hd (strip s) = hd ?z" by (simp only: y hd_rev)
  moreover have "last (strip s) = hd ?w" by (simp only: y last_rev)
  ultimately show ?thesis using hz hw by simp
qed

lemma strip_fixed:
  assumes "x \<noteq> []" "\<not> is_space (hd x)" "\<not> is_space (last x)"
  shows "strip x = x"
proof -
  have a: "dropWhile is_space x = x" using assms(1,2) by (simp add: dropWhile_eq_self_iff)
  have "hd (rev x) = last x" by (rule hd_rev)
  then have b: "dropWhile is_space (rev x) = rev x"
    using assms(3) by (simp add: dropWhile_eq_self_iff)
  show ?thesis by (simp add: strip_def a b)
qed

lemma strip_idem: "strip (strip s) = strip s"
proof (cases "strip s = []")
  case True
  have "strip [] = []" by (simp add: strip_def)
  with True show ?thesis by simp
next
  case False
  with strip_no_outer_space [of s] show ?thesis by (simp add: strip_fixed)
qed

lemma load_lines_fixed: "x \<in> load_lines t \<Longrightarrow> strip x = x \<and> x \<noteq> []"
  by (auto simp: load_lines_def strip_idem split: option.splits)

lemma finite_load_lines: "finite (load_lines t)"
  by (simp add: load_lines_def split: option.splits)

lemma load_save_lines:
  "finite S \<Longrightarrow> load_lines (save_lines S) = {x \<in> strip ` S. x \<noteq> []}"
  by (auto simp: load_lines_def save_lines_def)

lemma load_save_superset:
  assumes "finite S" "load_lines t \<subseteq> S"
  shows "load_lines t \<subseteq> load_lines (save_lines S)"
proof
  fix x assume x: "x \<in> load_lines t"
  then have "strip x = x" "x \<noteq> []" using load_lines_fixed by auto
  moreover have "x \<in> S" using x assms(2) by auto
  ultimately have "x \<in> strip ` S" by force
  with \<open>x \<noteq> []\<close> show "x \<in> load_lines (save_lines S)"
    by (simp add: load_save_lines [OF assms(1)])
qed

lemma load_lines_idem:
  "load_lines (save_lines (load_lines t)) = load_lines t"
proof -
  have "{x \<in> strip ` load_lines t. x \<noteq> []} = load_lines t"
    using load_lines_fixed [of _ t] by force
  then show ?thesis by (simp add: load_save_lines [OF finite_load_lines])
qed

lemma main_unfold:
  "main E D =
     (if scan_video_files DIRECTORIES (d_files D) = [] then (D, None)
      else case snd (process_all E (scan_video_files DIRECTORIES (d_files D)) (start_state D)) of
        Some e \<Rightarrow>
          (D\<lparr>d_files := files (fst (process_all E (scan_video_files DIRECTORIES (d_files D)) (start_state D))),
             d_calls := calls (fst (process_all E (scan_video_files DIRECTORIES (d_files D)) (start_state D)))\<rparr>,
           Some e)
      | None \<Rightarrow>
          (D\<lparr>d_files := files (fst (process_all E (scan_video_files DIRECTORIES (d_files D)) (start_state D))),
             d_calls := calls (fst (process_all E (scan_video_files DIRECTORIES (d_files D)) (start_state D))),
             processed_txt := save_lines (processed_set (fst (process_all E (scan_video_files DIRECTORIES (d_files D)) (start_state D)))),
             hashes_db_txt := save_lines (processed_hashes (fst (process_all E (scan_video_files DIRECTORIES (d_files D)) (start_state D))))\<rparr>,
           None))"
  by (simp add: main_def Let_def start_state_def save_processed_list_def save_hash_db_def
      split: prod.splits option.splits)

text \<open>
  Claim C9: a call of \<open>process_video\<close> leaves a handled set that contains the one it
  found, and so does the pass over all the files; and the set that \<open>main\<close> leaves in
  the state file contains the set it loaded at the start: either the state file is
  untouched (no video found, or an exception), or it has been rewritten from a set that
  contains the loaded one.
\<close>

theorem handled_identities_monotone:
  "processed_set s \<subseteq> processed_set (fst (process_video E v s))
   \<and> processed_set s \<subseteq> processed_set (fst (process_all E vs s))
   \<and> load_processed_list D \<subseteq> load_processed_list (fst (main E D))
   \<and> (processed_txt (fst (main E D)) = processed_txt D
      \<or> (\<exists>S. processed_txt (fst (main E D)) = save_lines S \<and> load_processed_list D \<subseteq> S))"
proof -
  let ?vs = "scan_video_files DIRECTORIES (d_files D)"
  let ?r = "process_all E ?vs (start_state D)"
  have a: "processed_set s \<subseteq> processed_set (fst (process_video E v s))"
    using process_video_sets [of s E v] by blast
  have b: "processed_set s \<subseteq> processed_set (fst (process_all E vs s))"
    using process_all_sets [of s E vs] by blast
  have l: "load_processed_list D \<subseteq> processed_set (fst ?r)"
    using process_all_sets [of "start_state D" E ?vs] by (simp add: start_state_def)
  have f: "finite (processed_set (fst ?r))"
    using process_all_sets [of "start_state D" E ?vs]
    by (simp add: start_state_def load_processed_list_def finite_load_lines)
  have c: "load_processed_list D \<subseteq> load_processed_list (fst (main E D))
     \<and> (processed_txt (fst (main E D)) = processed_txt D
        \<or> (\<exists>S. processed_txt (fst (main E D)) = save_lines S \<and> load_processed_list D \<subseteq> S))"
  proof (cases "?vs = []")
    case True
    then show ?thesis by (simp add: main_unfold)
  next
    case False
    show ?thesis
    proof (cases "snd ?r")
      case (Some e)
      with False show ?thesis by (simp add: main_unfold load_processed_list_def)
    next
      case None
      with False have p: "processed_txt (fst (main E D)) = save_lines (processed_set (fst ?r))"
        by (simp add: main_unfold)
      have "load_lines (processed_txt D) \<subseteq> load_lines (save_lines (processed_set (fst ?r)))"
        using load_save_superset [OF f] l by (simp add: load_processed_list_def)
      with p l show ?thesis by (auto simp: load_processed_list_def)
    qed
  qed
  from a b c show ?thesis by blast
qed

section \<open>A file that cannot be read\<close>

lemma main_result:
  assumes "scan_video_files DIRECTORIES (d_files D) = vs" "vs \<noteq> []"
    "process_all E vs (start_state D) = (s1, r)"
  shows "main E D =
     (case r of
        Some e \<Rightarrow> (D\<lparr>d_files := files s1, d_calls := calls s1\<rparr>, Some e)
      | None \<Rightarrow>
          (D\<lparr>d_files := files s1, d_calls := calls s1,
             processed_txt := save_lines (processed_set s1),
             hashes_db_txt := save_lines (processed_hashes s1)\<rparr>, None))"
  using assms by (simp add: main_unfold split: option.splits)

lemma scan_locked: "scan_video_files DIRECTORIES (d_files disk_locked) = [locked_mkv, movie_mkv]"
  by (simp add: scan_video_files_def DIRECTORIES_def disk_locked_def rglob_def video_exts_def
      ends_with_def movie_mkv_def locked_mkv_def parts_def)


lemma locked_mkv_stem: "stem locked_mkv = ''locked''"
  by (simp add: stem_def stem_of_def has_suffix_def dot_tail_def locked_mkv_def)

lemma disk_locked_cleanup:
  "cleanup_temp_files locked_mkv (d_files disk_locked) = d_files disk_locked"
  "cleanup_temp_files movie_mkv (d_files disk_locked) = d_files disk_locked"
  by (simp_all add: cleanup_temp_files_def glob_temp_def disk_locked_def is_temp_of_def
      temp_pattern_matches_def movie_mkv_stem locked_mkv_stem starts_with_def movie_mkv_def
      locked_mkv_def)

lemma start_state_locked:
  "start_state disk_locked
     = \<lparr>files = d_files disk_locked, calls = [], processed_set = {}, processed_hashes = {}\<rparr>"
  by (simp add: start_state_def disk_locked_def load_processed_list_def load_hash_db_def
      load_lines_def)

lemma locked_hash: "compute_file_hash env_4k locked_mkv (d_files disk_locked) = Inl IOError"
  by (simp add: compute_file_hash_def lookup_def disk_locked_def movie_mkv_def locked_mkv_def)

lemma locked_movie_hash:
  "compute_file_hash env_4k movie_mkv (d_files disk_locked) = Inr ''sha:mkv bytes''"
  by (simp add: compute_file_hash_prefix lookup_def disk_locked_def env_4k_def env_gpu_timeout_def)

text \<open>
  Claim C3 on this library: hashing the unreadable file raises, the call for it ends there
  (the file is not probed and its identity is not marked), the other file is processed,
  and \<open>main\<close> ends with the exception without writing the state files.
\<close>

theorem unreadable_file_aborts_run:
  "scan_video_files DIRECTORIES (d_files disk_locked) = [locked_mkv, movie_mkv]
   \<and> compute_file_hash env_4k locked_mkv (d_files disk_locked) = Inl IOError
   \<and> process_video env_4k locked_mkv (start_state disk_locked)
       = (start_state disk_locked, Some IOError)
   \<and> process_video env_4k movie_mkv (start_state disk_locked)
       = ((start_state disk_locked)\<lparr>processed_set := {path_str movie_mkv},
                                     processed_hashes := {''sha:mkv bytes''}\<rparr>, None)
   \<and> main env_4k disk_locked = (disk_locked, Some IOError)
   \<and> processed_txt (fst (main env_4k disk_locked)) = None"
proof -
  let ?s0 = "start_state disk_locked"
  have f0: "files ?s0 = d_files disk_locked" "processed_set ?s0 = {}" "processed_hashes ?s0 = {}"
    "calls ?s0 = []"
    by (simp_all add: start_state_locked)
  have p1: "process_video env_4k locked_mkv ?s0 = (?s0, Some IOError)"
  proof -
    have "path_str locked_mkv \<notin> processed_set ?s0" by (simp add: f0)
    moreover have "compute_file_hash env_4k locked_mkv (files ?s0) = Inl IOError"
      by (simp add: f0 locked_hash)
    ultimately have "process_video env_4k locked_mkv ?s0 = (after_cleanup locked_mkv ?s0, Some IOError)"
      by (rule process_video_hash_error)
    moreover have "after_cleanup locked_mkv ?s0 = ?s0"
      by (simp add: after_cleanup_def f0 disk_locked_cleanup)
    ultimately show ?thesis by simp
  qed
  have p2: "process_video env_4k movie_mkv ?s0
       = (?s0\<lparr>processed_set := {path_str movie_mkv}, processed_hashes := {''sha:mkv bytes''}\<rparr>, None)"
  proof -
    have a: "path_str movie_mkv \<notin> processed_set ?s0" by (simp add: f0)
    have b: "compute_file_hash env_4k movie_mkv (files ?s0) = Inr ''sha:mkv bytes''"
      by (simp add: f0 locked_movie_hash)
    have c: "\<not> (''sha:mkv bytes'' \<noteq> [] \<and> ''sha:mkv bytes'' \<in> processed_hashes ?s0)"
      by (simp add: f0)
    have u: "SKIP_4K_OR_HDR \<and> is_4k_or_hdr (i_width info_4k) (i_height info_4k) (i_color_transfer info_4k)"
      by (simp add: info_4k_def is_4k_or_hdr_def SKIP_4K_OR_HDR_def)
    have "process_video env_4k movie_mkv ?s0
        = (mark_handled movie_mkv (after_hash movie_mkv ''sha:mkv bytes'' ?s0), None)"
      using process_video_probed [OF a b c env_4k_info] u by (simp add: info_4k_def info0_def)
    moreover have "mark_handled movie_mkv (after_hash movie_mkv ''sha:mkv bytes'' ?s0)
        = ?s0\<lparr>processed_set := {path_str movie_mkv}, processed_hashes := {''sha:mkv bytes''}\<rparr>"
      by (simp add: mark_handled_def after_hash_def after_cleanup_def f0 disk_locked_cleanup)
    ultimately show ?thesis by simp
  qed
  have pa: "process_all env_4k [locked_mkv, movie_mkv] ?s0
       = (?s0\<lparr>processed_set := {path_str movie_mkv}, processed_hashes := {''sha:mkv bytes''}\<rparr>,
          Some IOError)"
    by (simp add: p1 p2)
  have m: "main env_4k disk_locked = (disk_locked, Some IOError)"
    using main_result [OF scan_locked _ pa] by (simp add: f0) (simp add: disk_locked_def)
  have t: "processed_txt disk_locked = None" by (simp add: disk_locked_def)
  from scan_locked locked_hash p1 p2 m t show ?thesis by simp
qed

section \<open>The files that a call can add\<close>

lemma sidecar_not_video: "sidecar q \<Longrightarrow> \<not> video_name (name q)"
  by (auto simp: sidecar_def video_name_def video_exts_def ends_with_def)

lemma sub_out_path_sidecar:
  "sidecar (sub_out_path v k l ''.srt'')" "sidecar (sub_out_path v k l ''.sup'')"
  by (simp_all add: sidecar_def sub_out_path_def with_name_def ends_with_def)

lemma exists_write_file: "exists (write_file p b f) q = (q = p \<or> exists f q)"
  by (simp add: exists_def lookup_write_file)

lemma run_ffmpeg_exists:
  "exists (files (snd (run_ffmpeg E cmd src dst s))) q \<Longrightarrow> exists (files s) q \<or> q = dst"
  by (auto simp: files_run_ffmpeg exists_write_file split: option.splits)

lemma rename_exists:
  "rename E src dst f = Inr f' \<Longrightarrow> exists f' q \<Longrightarrow> exists f q \<or> q = dst"
  by (auto simp: rename_def exists_def lookup_update lookup_delete split: option.splits if_splits)

lemma maybe_guess_exists:
  assumes "maybe_guess_srt_language E srt f = Inr f'" "exists f' q"
  shows "exists f q \<or> sidecar q"
proof (cases "f' = f")
  case True
  with assms show ?thesis by simp
next
  case False
  with assms(1) obtain g where
    r: "rename E srt (with_name srt (stem srt @ ''.'' @ lower g @ ''.srt'')) f = Inr f'"
    by (auto simp: maybe_guess_srt_language_def Let_def split: option.splits if_splits sum.splits)
  have "sidecar (with_name srt (stem srt @ ''.'' @ lower g @ ''.srt''))"
    by (simp add: sidecar_def with_name_def ends_with_def)
  with rename_exists [OF r assms(2)] show ?thesis by auto
qed

lemma extract_text_exists:
  assumes "\<not> sidecar q"
  shows "exists (files (fst (extract_text_subs_if_any E v ts s))) q \<Longrightarrow> exists (files s) q"
proof (induction ts arbitrary: s)
  case Nil
  then show ?case by simp
next
  case (Cons t ts)
  obtain k cd l where t: "t = (k, cd, l)" by (cases t) auto
  let ?out = "sub_out_path v k l ''.srt''"
  obtain r s1 where run: "run_ffmpeg E (text_sub_cmd v k ?out) v ?out s = (r, s1)"
    by (cases "run_ffmpeg E (text_sub_cmd v k ?out) v ?out s") auto
  have s1: "exists (files s1) q \<Longrightarrow> exists (files s) q"
    using run_ffmpeg_exists [of E "text_sub_cmd v k ?out" v ?out s q] run
      sub_out_path_sidecar(1) [of v k l] assms by auto
  have g: "\<And>f'. maybe_guess_srt_language E ?out (files s1) = Inr f' \<Longrightarrow>
      exists f' q \<Longrightarrow> exists (files s) q"
    using maybe_guess_exists s1 assms by blast
  show ?case
  proof (cases "exists (files s) ?out")
    case True
    then show ?thesis using Cons.prems t Cons.IH [of s] by (simp add: Let_def)
  next
    case False
    show ?thesis
    proof (cases r)
      case TimedOut
      then show ?thesis using Cons.prems t False run s1 by (simp add: Let_def)
    next
      case (Exited rc)
      show ?thesis
      proof (cases "rc = 0 \<and> exists (files s1) ?out \<and> nonempty_file (files s1) ?out
                \<and> l = [] \<and> langdetect_available E")
        case c: False
        then have "extract_text_subs_if_any E v (t # ts) s = extract_text_subs_if_any E v ts s1"
          unfolding t using False run Exited by (simp add: Let_def del: de_Morgan_conj)
        then have "exists (files (fst (extract_text_subs_if_any E v ts s1))) q"
          using Cons.prems by simp
        then show ?thesis using Cons.IH [of s1] s1 by blast
      next
        case True
        then have c: "rc = 0" "exists (files s1) ?out" "nonempty_file (files s1) ?out"
          "l = []" "langdetect_available E" by blast+
        show ?thesis
        proof (cases "maybe_guess_srt_language E ?out (files s1)")
          case (Inl e)
          then show ?thesis using Cons.prems t False run Exited c s1 by (simp add: Let_def)
        next
          case (Inr f')
          then have "exists (files (fst (extract_text_subs_if_any E v ts (s1\<lparr>files := f'\<rparr>)))) q"
            using Cons.prems t False run Exited c by (simp add: Let_def)
          then have "exists (files (s1\<lparr>files := f'\<rparr>)) q" by (rule Cons.IH)
          then show ?thesis using g [OF Inr] by simp
        qed
      qed
    qed
  qed
qed

lemma extract_image_exists:
  assumes "\<not> sidecar q"
  shows "exists (files (fst (extract_image_subs_if_any E v ts s))) q \<Longrightarrow> exists (files s) q"
proof (induction ts arbitrary: s)
  case Nil
  then show ?case by simp
next
  case (Cons t ts)
  obtain k cd l where t: "t = (k, cd, l)" by (cases t) auto
  let ?out = "sub_out_path v k l ''.sup''"
  obtain r s1 where run: "run_ffmpeg E (image_sub_cmd v k ?out) v ?out s = (r, s1)"
    by (cases "run_ffmpeg E (image_sub_cmd v k ?out) v ?out s") auto
  have s1: "exists (files s1) q \<Longrightarrow> exists (files s) q"
    using run_ffmpeg_exists [of E "image_sub_cmd v k ?out" v ?out s q] run
      sub_out_path_sidecar(2) [of v k l] assms by auto
  show ?case
  proof (cases "exists (files s) ?out")
    case True
    then show ?thesis using Cons.prems t Cons.IH [of s] by (simp add: Let_def)
  next
    case False
    show ?thesis
    proof (cases r)
      case TimedOut
      then show ?thesis using Cons.prems t False run s1 by (simp add: Let_def)
    next
      case (Exited rc)
      then have "exists (files (fst (extract_image_subs_if_any E v ts s1))) q"
        using Cons.prems t False run by (simp add: Let_def)
      then show ?thesis using Cons.IH [of s1] s1 by blast
    qed
  qed
qed


lemma exists_delete: "exists (AList.delete p f) q \<Longrightarrow> exists f q"
  by (simp add: exists_def lookup_delete split: if_splits)

lemma exists_cleanup: "exists (cleanup_temp_files v f) q \<Longrightarrow> exists f q"
  by (simp add: exists_def lookup_cleanup_temp_files split: if_splits)

lemma convert_to_mp4_exists:
  assumes "exists (files (snd (convert_to_mp4 E src dst i s))) q"
  shows "exists (files s) q \<or> q = dst"
proof -
  obtain r s1 where r1: "run_ffmpeg E (gpu_cmd src dst i) src dst s = (r, s1)"
    by (cases "run_ffmpeg E (gpu_cmd src dst i) src dst s") auto
  obtain r2 s2 where r2: "run_ffmpeg E (cpu_cmd src dst i) src dst s1 = (r2, s2)"
    by (cases "run_ffmpeg E (cpu_cmd src dst i) src dst s1") auto
  have a: "exists (files s1) q \<longrightarrow> exists (files s) q \<or> q = dst"
    using run_ffmpeg_exists [of E "gpu_cmd src dst i" src dst s q] r1 by simp
  have b: "exists (files s2) q \<longrightarrow> exists (files s1) q \<or> q = dst"
    using run_ffmpeg_exists [of E "cpu_cmd src dst i" src dst s1 q] r2 by simp
  show ?thesis
    using assms r1 r2 a b
    by (auto simp: convert_to_mp4_def split: proc_result.splits if_splits)
qed

lemma extract_and_mark_exists:
  assumes "\<not> sidecar q" "exists (files (fst (extract_and_mark E v fin i s))) q"
  shows "exists (files s) q"
proof -
  obtain s1 r1 where e1: "extract_text_subs_if_any E fin (text_sub_tracks i) s = (s1, r1)"
    by (cases "extract_text_subs_if_any E fin (text_sub_tracks i) s") auto
  obtain s2 r2 where e2: "extract_image_subs_if_any E fin (image_sub_tracks i) s1 = (s2, r2)"
    by (cases "extract_image_subs_if_any E fin (image_sub_tracks i) s1") auto
  have k1: "exists (files s1) q \<longrightarrow> exists (files s) q"
    using extract_text_exists [OF assms(1), of E fin "text_sub_tracks i" s] e1 by simp
  have k2: "exists (files s2) q \<longrightarrow> exists (files s1) q"
    using extract_image_exists [OF assms(1), of E fin "image_sub_tracks i" s1] e2 by simp
  show ?thesis
    using assms(2) e1 e2 k1 k2
    by (cases r1; cases r2) (auto simp: extract_and_mark_def mark_handled_simps)
qed

text \<open>
  The files that a call of \<open>process_video\<close> can add, apart from subtitle files: the
  temporary output of the conversion, and the converted file, whose identity the call
  marks as handled when it ends without an exception.
\<close>

lemma convert_and_finish_new_files:
  assumes "\<not> sidecar q" "exists (files (fst (convert_and_finish E v i s))) q"
  shows "exists (files s) q \<or> q = get_temp_conversion_filename E v
    \<or> (q = with_suffix v ''.mp4''
        \<and> (snd (convert_and_finish E v i s) = None \<longrightarrow>
             path_str q \<in> processed_set (fst (convert_and_finish E v i s))))"
proof -
  let ?t = "get_temp_conversion_filename E v"
  let ?fin = "with_suffix v ''.mp4''"
  obtain ok s1 where c: "convert_to_mp4 E v ?t i s = (ok, s1)"
    by (cases "convert_to_mp4 E v ?t i s") auto
  have k1: "exists (files s1) q \<longrightarrow> exists (files s) q \<or> q = ?t"
    using convert_to_mp4_exists [of E v ?t i s q] c by simp
  show ?thesis
  proof (cases ok)
    case False
    then show ?thesis using assms(2) c k1 by (auto simp: convert_and_finish_def mark_handled_simps)
  next
    case True
    show ?thesis
    proof (cases "unlink v (files s1)")
      case (Inl e)
      then show ?thesis using assms(2) c k1 True by (auto simp: convert_and_finish_def)
    next
      case (Inr f1)
      then have f1: "exists f1 q \<longrightarrow> exists (files s1) q"
        by (auto simp: unlink_def split: if_splits dest: exists_delete)
      show ?thesis
      proof (cases "rename E ?t ?fin f1")
        case (Inl e)
        then show ?thesis
          using assms(2) c k1 True \<open>unlink v (files s1) = Inr f1\<close> f1
          by (auto simp: convert_and_finish_def Let_def)
      next
        case rn: (Inr f2)
        have f2: "exists f2 q \<longrightarrow> exists f1 q \<or> q = ?fin"
          using rename_exists [OF rn] by blast
        show ?thesis
        proof (cases "check_video_info E ?fin f2")
          case (Inl e)
          then show ?thesis
            using assms(2) c k1 True \<open>unlink v (files s1) = Inr f1\<close> f1 rn f2
            by (auto simp: convert_and_finish_def Let_def)
        next
          case (Inr i2)
          let ?em = "extract_and_mark E v ?fin i2 (s1\<lparr>files := f2\<rparr>)"
          have caf: "convert_and_finish E v i s = ?em"
            using c True \<open>unlink v (files s1) = Inr f1\<close> rn Inr
            by (simp add: convert_and_finish_def Let_def)
          have "exists f2 q"
            using extract_and_mark_exists [OF assms(1), of E v ?fin i2 "s1\<lparr>files := f2\<rparr>"]
              assms(2) by (simp add: caf)
          moreover have "snd ?em = None \<longrightarrow> path_str ?fin \<in> processed_set (fst ?em)"
            using extract_and_mark_sets(4) [of E v ?fin i2 "s1\<lparr>files := f2\<rparr>"] by auto
          ultimately show ?thesis using f2 f1 k1 by (auto simp: caf)
        qed
      qed
    qed
  qed
qed

lemma process_video_new_files:
  assumes "\<not> sidecar q" "exists (files (fst (process_video E v s))) q"
  shows "exists (files s) q \<or> q = get_temp_conversion_filename E v
    \<or> (q = with_suffix v ''.mp4''
        \<and> (snd (process_video E v s) = None \<longrightarrow>
             path_str q \<in> processed_set (fst (process_video E v s))))"
proof (cases "path_str v \<in> processed_set s")
  case True
  then show ?thesis using assms(2) by (simp add: process_video_handled)
next
  case nh: False
  show ?thesis
  proof (cases "compute_file_hash E v (files s)")
    case (Inl e)
    show ?thesis
      using assms(2)
      by (auto simp: process_video_hash_error [OF nh Inl] after_cleanup_simps dest: exists_cleanup)
  next
    case (Inr h)
    show ?thesis
    proof (cases "h \<noteq> [] \<and> h \<in> processed_hashes s")
      case True
      then have pv: "process_video E v s =
        (mark_handled v ((after_cleanup v s)\<lparr>files := AList.delete v (cleanup_temp_files v (files s))\<rparr>), None)"
        using process_video_duplicate [OF nh Inr] by simp
      show ?thesis
        using assms(2)
        by (auto simp: pv mark_handled_simps dest!: exists_delete exists_cleanup)
    next
      case nd: False
      show ?thesis
      proof (cases "check_video_info E v (files s)")
        case (Inl e)
        show ?thesis
          using assms(2)
          by (auto simp: process_video_probe_error [OF nh Inr nd Inl] after_hash_simps
              dest: exists_cleanup)
      next
        case (Inr i)
        note pv = process_video_probed [OF nh \<open>compute_file_hash E v (files s) = Inr h\<close> nd Inr]
        let ?s2 = "after_hash v h s"
        have s2: "exists (files ?s2) q \<longrightarrow> exists (files s) q"
          by (auto simp: after_hash_simps dest: exists_cleanup)
        have em: "exists (files (fst (extract_and_mark E v v i ?s2))) q \<longrightarrow> exists (files s) q"
          using extract_and_mark_exists [OF assms(1), of E v v i ?s2] s2 by blast
        have cf: "exists (files (fst (convert_and_finish E v i ?s2))) q \<longrightarrow>
           exists (files s) q \<or> q = get_temp_conversion_filename E v
           \<or> (q = with_suffix v ''.mp4''
              \<and> (snd (convert_and_finish E v i ?s2) = None \<longrightarrow>
                  path_str q \<in> processed_set (fst (convert_and_finish E v i ?s2))))"
          using convert_and_finish_new_files [OF assms(1), of E v i ?s2] s2 by blast
        have mh: "exists (files (mark_handled v ?s2)) q \<longrightarrow> exists (files s) q"
          using s2 by (simp add: mark_handled_simps)
        show ?thesis
          using assms(2) em cf mh unfolding pv by (auto split: if_splits)
      qed
    qed
  qed
qed

section \<open>A whole run\<close>

lemma process_all_handled:
  "\<forall>v\<in>set vs. path_str v \<in> processed_set s \<Longrightarrow> process_all E vs s = (s, None)"
  by (induction vs) (simp_all add: process_video_handled)

lemma process_all_completed:
  assumes "snd (process_all E vs s) = None"
  shows "(\<forall>v\<in>set vs. path_str v \<in> processed_set (fst (process_all E vs s)))
       \<and> (\<forall>q. \<not> sidecar q \<and> exists (files (fst (process_all E vs s))) q \<longrightarrow>
              exists (files s) q \<or> (\<exists>v\<in>set vs. q = get_temp_conversion_filename E v)
              \<or> path_str q \<in> processed_set (fst (process_all E vs s)))"
  using assms
proof (induction vs arbitrary: s)
  case Nil
  show ?case by simp
next
  case (Cons v vs)
  obtain s1 r1 where p: "process_video E v s = (s1, r1)" by (cases "process_video E v s") auto
  obtain s2 r2 where q: "process_all E vs s1 = (s2, r2)" by (cases "process_all E vs s1") auto
  from Cons.prems p q have r: "r1 = None" "r2 = None" by (auto split: option.splits)
  have v1: "path_str v \<in> processed_set s1"
    using process_video_sets [of s E v] p r by simp
  have mono: "processed_set s1 \<subseteq> processed_set s2"
    using process_all_sets [of s1 E vs] q by simp
  have ih: "(\<forall>v\<in>set vs. path_str v \<in> processed_set s2)
       \<and> (\<forall>q. \<not> sidecar q \<and> exists (files s2) q \<longrightarrow>
              exists (files s1) q \<or> (\<exists>v\<in>set vs. q = get_temp_conversion_filename E v)
              \<or> path_str q \<in> processed_set s2)"
    using Cons.IH [of s1] q r by simp
  have new: "\<And>x. \<not> sidecar x \<Longrightarrow> exists (files s1) x \<Longrightarrow>
      exists (files s) x \<or> x = get_temp_conversion_filename E v \<or> path_str x \<in> processed_set s1"
    using process_video_new_files [of _ E v s] p r by auto
  have "\<forall>x. \<not> sidecar x \<and> exists (files s2) x \<longrightarrow>
              exists (files s) x \<or> (\<exists>w\<in>set (v # vs). x = get_temp_conversion_filename E w)
              \<or> path_str x \<in> processed_set s2"
  proof (intro allI impI)
    fix x assume x: "\<not> sidecar x \<and> exists (files s2) x"
    with ih have "exists (files s1) x \<or> (\<exists>v\<in>set vs. x = get_temp_conversion_filename E v)
              \<or> path_str x \<in> processed_set s2" by blast
    then show "exists (files s) x \<or> (\<exists>w\<in>set (v # vs). x = get_temp_conversion_filename E w)
              \<or> path_str x \<in> processed_set s2"
      using new [of x] x mono by auto
  qed
  moreover have "\<forall>w\<in>set (v # vs). path_str w \<in> processed_set s2"
    using ih v1 mono by auto
  ultimately show ?case by (simp add: p q)
qed

lemma set_scan_video_files:
  "set (scan_video_files dirs f)
     = {q. exists f q \<and> (\<exists>d\<in>set dirs. take (length d) (dir q) = d) \<and> video_name (name q)}"
proof -
  have "q \<in> fst ` set f \<longleftrightarrow> exists f q" for q
    by (simp add: exists_def lookup_def map_of_eq_None_iff)
  then show ?thesis
    by (auto simp: scan_video_files_def rglob_def video_name_def)
qed

lemma ends_with_split: "ends_with e n \<Longrightarrow> n = take (length n - length e) n @ e"
  by (metis append_take_drop_id ends_with_def)

lemma video_name_last: "video_name n \<Longrightarrow> n \<noteq> [] \<and> \<not> is_space (last n)"
proof -
  assume "video_name n"
  then obtain e where e: "e \<in> set video_exts" "ends_with e n" by (auto simp: video_name_def)
  from ends_with_split [OF e(2)] obtain p where n: "n = p @ e" by blast
  from e(1) have "e \<noteq> [] \<and> \<not> is_space (last e)"
    by (auto simp: video_exts_def is_space_def)
  with n show ?thesis by simp
qed

lemma path_str_hd: "path_str q \<noteq> [] \<and> hd (path_str q) = CHR ''/''"
  by (cases "dir q") (simp_all add: path_str_def)

lemma path_str_last: "name q \<noteq> [] \<Longrightarrow> last (path_str q) = last (name q)"
  by (simp add: path_str_def)

lemma video_path_str_fixed:
  assumes "video_name (name q)"
  shows "strip (path_str q) = path_str q" "path_str q \<noteq> []"
proof -
  have a: "path_str q \<noteq> []" "\<not> is_space (hd (path_str q))"
    using path_str_hd [of q] by (simp_all add: is_space_def)
  have b: "\<not> is_space (last (path_str q))"
    using video_name_last [OF assms] by (simp add: path_str_last)
  show "strip (path_str q) = path_str q" using a b by (rule strip_fixed)
  show "path_str q \<noteq> []" by (rule a(1))
qed

lemma main_no_videos:
  "scan_video_files DIRECTORIES (d_files D) = [] \<Longrightarrow> main E D = (D, None)"
  by (simp add: main_unfold)

lemma main_all_handled:
  assumes "\<forall>q\<in>set (scan_video_files DIRECTORIES (d_files D)). path_str q \<in> load_processed_list D"
  shows "snd (main E D) = None
       \<and> d_files (fst (main E D)) = d_files D
       \<and> d_calls (fst (main E D)) = d_calls D
       \<and> load_processed_list (fst (main E D)) = load_processed_list D
       \<and> load_hash_db (fst (main E D)) = load_hash_db D"
proof (cases "scan_video_files DIRECTORIES (d_files D) = []")
  case True
  then show ?thesis by (simp add: main_no_videos)
next
  case False
  let ?vs = "scan_video_files DIRECTORIES (d_files D)"
  have "\<forall>v\<in>set ?vs. path_str v \<in> processed_set (start_state D)"
    using assms by (simp add: start_state_def)
  then have pa: "process_all E ?vs (start_state D) = (start_state D, None)"
    by (rule process_all_handled)
  have m: "main E D =
     (D\<lparr>d_files := files (start_state D), d_calls := calls (start_state D),
        processed_txt := save_lines (processed_set (start_state D)),
        hashes_db_txt := save_lines (processed_hashes (start_state D))\<rparr>, None)"
    using main_result [OF refl False pa] by simp
  show ?thesis
    by (simp add: m start_state_def load_processed_list_def load_hash_db_def load_lines_idem)
qed

section \<open>Running twice\<close>

lemma start_state_disk_one: "start_state disk_one = state0"
  by (simp add: start_state_def disk_one_def state0_def load_processed_list_def load_hash_db_def
      load_lines_def)

lemma scan_disk_one: "scan_video_files DIRECTORIES (d_files disk_one) = [movie_mkv]"
  by (simp add: scan_video_files_def DIRECTORIES_def disk_one_def rglob_def video_exts_def
      ends_with_def movie_mkv_def)

lemma movie_mkv_str: "path_str movie_mkv = ''/F:/TV/movie.mkv''"
  by (simp add: path_str_def movie_mkv_def)

lemma movie_tmp_str:
  "path_str movie_tmp = ''/F:/TV/movie_converted_20240101_000000_0a1b2c3d.mp4''"
  by (simp add: path_str_def movie_tmp_def)

lemma env_partial_info: "check_video_info env_partial movie_mkv f = Inr info_720"
  by (simp add: check_video_info_def run_ffprobe_def env_partial_def probe_with_def
      video_part_def audio_part_def video_stream_def other_stream_def get_or_def info_720_def
      info0_def enumerate_eq_zip movie_mkv_def)

lemma env_partial_temp: "get_temp_conversion_filename env_partial movie_mkv = movie_tmp"
  by (simp add: get_temp_conversion_filename_def movie_mkv_stem movie_mkv_dir movie_tmp_def
      env_partial_def env_gpu_timeout_def)

lemma process_video_partial:
  "process_video env_partial movie_mkv state0
     = (\<lparr>files = [(movie_mkv, \<lparr>data = ''mkv bytes'', readable = True\<rparr>),
                  (movie_tmp, \<lparr>data = ''partial output'', readable = True\<rparr>)],
         calls = [gpu_cmd movie_mkv movie_tmp info_720],
         processed_set = {''/F:/TV/movie.mkv''},
         processed_hashes = {''sha:mkv bytes''}\<rparr>, None)"
proof -
  have a: "path_str movie_mkv \<notin> processed_set state0" by (simp add: state0_def)
  have b: "compute_file_hash env_partial movie_mkv (files state0) = Inr ''sha:mkv bytes''"
    by (simp add: state0_hash env_partial_def env_gpu_timeout_def)
  have c: "\<not> (''sha:mkv bytes'' \<noteq> [] \<and> ''sha:mkv bytes'' \<in> processed_hashes state0)"
    by (simp add: state0_def)
  have d: "\<not> (video_codec info_720 = ''unknown'' \<and> audio_codec info_720 = ''unknown'')"
    by (simp add: info_720_def)
  have e: "\<not> (SKIP_4K_OR_HDR \<and> is_4k_or_hdr (i_width info_720) (i_height info_720)
              (i_color_transfer info_720))"
    by (simp add: info_720_def info0_def is_4k_or_hdr_def)
  have f: "\<not> already_optimized movie_mkv info_720"
    by (simp add: already_optimized_def info_720_def)
  have "convert_to_mp4 env_partial movie_mkv movie_tmp info_720
             (after_hash movie_mkv ''sha:mkv bytes'' state0)
        = (False, \<lparr>files = [(movie_mkv, \<lparr>data = ''mkv bytes'', readable = True\<rparr>),
                  (movie_tmp, \<lparr>data = ''partial output'', readable = True\<rparr>)],
         calls = [gpu_cmd movie_mkv movie_tmp info_720],
         processed_set = {},
         processed_hashes = {''sha:mkv bytes''}\<rparr>)"
    by (simp add: convert_to_mp4_def run_ffmpeg_def env_partial_def
        after_hash_def after_cleanup_def state0_cleanup write_file_def)
      (simp add: state0_def movie_mkv_def movie_tmp_def)
  then have g: "convert_to_mp4 env_partial movie_mkv
             (get_temp_conversion_filename env_partial movie_mkv) info_720
             (after_hash movie_mkv ''sha:mkv bytes'' state0)
        = (False, \<lparr>files = [(movie_mkv, \<lparr>data = ''mkv bytes'', readable = True\<rparr>),
                  (movie_tmp, \<lparr>data = ''partial output'', readable = True\<rparr>)],
         calls = [gpu_cmd movie_mkv movie_tmp info_720],
         processed_set = {},
         processed_hashes = {''sha:mkv bytes''}\<rparr>)"
    by (simp only: env_partial_temp)
  then have g': "fst (convert_to_mp4 env_partial movie_mkv
             (get_temp_conversion_filename env_partial movie_mkv) info_720
             (after_hash movie_mkv ''sha:mkv bytes'' state0)) = False"
    by simp
  show ?thesis
    using process_video_probed [OF a b c env_partial_info] d e f
      convert_and_finish_failed [OF g'] g
    by (simp add: mark_handled_def movie_mkv_str)
qed

lemma main_partial_first: "main env_partial disk_one = (disk_after_timeout, None)"
proof -
  have pa: "process_all env_partial [movie_mkv] (start_state disk_one)
     = (\<lparr>files = [(movie_mkv, \<lparr>data = ''mkv bytes'', readable = True\<rparr>),
                  (movie_tmp, \<lparr>data = ''partial output'', readable = True\<rparr>)],
         calls = [gpu_cmd movie_mkv movie_tmp info_720],
         processed_set = {''/F:/TV/movie.mkv''},
         processed_hashes = {''sha:mkv bytes''}\<rparr>, None)"
    by (simp add: start_state_disk_one process_video_partial)
  show ?thesis
    using main_result [OF scan_disk_one _ pa]
    by (simp add: save_lines_def disk_one_def disk_after_timeout_def)
qed


lemma scan_after_timeout:
  "scan_video_files DIRECTORIES (d_files disk_after_timeout) = [movie_mkv, movie_tmp]"
  by (simp add: scan_video_files_def DIRECTORIES_def disk_after_timeout_def rglob_def
      video_exts_def ends_with_def movie_mkv_def movie_tmp_def parts_def)

lemma load_after_timeout:
  "load_processed_list disk_after_timeout = {''/F:/TV/movie.mkv''}"
  "load_hash_db disk_after_timeout = {''sha:mkv bytes''}"
  by (simp_all add: load_processed_list_def load_hash_db_def load_lines_def disk_after_timeout_def
      strip_def is_space_def)

lemma movie_tmp_stem: "stem movie_tmp = ''movie_converted_20240101_000000_0a1b2c3d''"
  by (simp add: stem_def stem_of_def has_suffix_def dot_tail_def movie_tmp_def)

lemma cleanup_after_timeout:
  "cleanup_temp_files movie_tmp (d_files disk_after_timeout) = d_files disk_after_timeout"
  by (simp add: cleanup_temp_files_def glob_temp_def disk_after_timeout_def is_temp_of_def
      temp_pattern_matches_def starts_with_def movie_mkv_def movie_tmp_def stem_def stem_of_def
      has_suffix_def dot_tail_def)

lemma env_partial_info_tmp: "check_video_info env_partial movie_tmp f = Inr info0"
  by (simp add: check_video_info_def run_ffprobe_def env_partial_def video_part_def
      audio_part_def movie_tmp_def)

lemma process_video_leftover:
  "process_video env_partial movie_tmp (start_state disk_after_timeout)
     = ((start_state disk_after_timeout)
          \<lparr>processed_set := {''/F:/TV/movie.mkv'', path_str movie_tmp},
            processed_hashes := {''sha:mkv bytes'', ''sha:partial output''}\<rparr>, None)"
proof -
  let ?s = "start_state disk_after_timeout"
  have s: "files ?s = d_files disk_after_timeout" "processed_set ?s = {''/F:/TV/movie.mkv''}"
    "processed_hashes ?s = {''sha:mkv bytes''}"
    by (simp_all add: start_state_def load_after_timeout)
  have a: "path_str movie_tmp \<notin> processed_set ?s" by (simp add: s movie_tmp_str)
  have b: "compute_file_hash env_partial movie_tmp (files ?s) = Inr ''sha:partial output''"
    by (simp add: s)
       (simp add: compute_file_hash_prefix lookup_def disk_after_timeout_def movie_mkv_def
        movie_tmp_def env_partial_def env_gpu_timeout_def)
  have c: "\<not> (''sha:partial output'' \<noteq> [] \<and> ''sha:partial output'' \<in> processed_hashes ?s)"
    by (simp add: s)
  have "process_video env_partial movie_tmp ?s
      = (mark_handled movie_tmp (after_hash movie_tmp ''sha:partial output'' ?s), None)"
    using process_video_probed [OF a b c env_partial_info_tmp] by (simp add: info0_def)
  moreover have "mark_handled movie_tmp (after_hash movie_tmp ''sha:partial output'' ?s)
      = ?s\<lparr>processed_set := {''/F:/TV/movie.mkv'', path_str movie_tmp},
            processed_hashes := {''sha:mkv bytes'', ''sha:partial output''}\<rparr>"
    by (simp add: mark_handled_def after_hash_def after_cleanup_def s cleanup_after_timeout)
       (simp add: start_state_def load_after_timeout insert_commute)
  ultimately show ?thesis by simp
qed

text \<open>
  Claim C5 on this library: the GPU attempt of the first run times out after it has written
  a part of its output, and \<open>convert_to_mp4\<close> returns \<open>False\<close>; the source is marked
  handled and the first run ends without an exception. The temporary file stays on disk,
  since the cleanup of line 249 is never reached again for a handled source. The second
  run finds it (its name ends with \<open>.mp4\<close>) and processes it as a new video: the
  handled set after the second run is not the one after the first.
\<close>

theorem leftover_temp_file_is_processed:
  "main env_partial disk_one = (disk_after_timeout, None)
   \<and> scan_video_files DIRECTORIES (d_files disk_after_timeout) = [movie_mkv, movie_tmp]
   \<and> load_processed_list disk_after_timeout = {path_str movie_mkv}
   \<and> snd (main env_partial disk_after_timeout) = None
   \<and> load_processed_list (fst (main env_partial disk_after_timeout))
       = {path_str movie_mkv, path_str movie_tmp}
   \<and> path_str movie_tmp \<notin> load_processed_list disk_after_timeout"
proof -
  let ?s = "start_state disk_after_timeout"
  have h: "path_str movie_mkv \<in> processed_set ?s"
    by (simp add: start_state_def load_after_timeout movie_mkv_str)
  have pa: "process_all env_partial [movie_mkv, movie_tmp] ?s
     = (?s\<lparr>processed_set := {''/F:/TV/movie.mkv'', path_str movie_tmp},
            processed_hashes := {''sha:mkv bytes'', ''sha:partial output''}\<rparr>, None)"
    by (simp add: process_video_handled [OF h] process_video_leftover)
  have m: "main env_partial disk_after_timeout
     = (disk_after_timeout
          \<lparr>d_files := files ?s, d_calls := calls ?s,
            processed_txt := save_lines {''/F:/TV/movie.mkv'', path_str movie_tmp},
            hashes_db_txt := save_lines {''sha:mkv bytes'', ''sha:partial output''}\<rparr>, None)"
    using main_result [OF scan_after_timeout _ pa] by simp
  have v: "video_name (name movie_mkv)" "video_name (name movie_tmp)"
    by (simp_all add: video_name_def video_exts_def ends_with_def movie_mkv_def movie_tmp_def)
  have l: "load_lines (save_lines {path_str movie_mkv, path_str movie_tmp})
      = {path_str movie_mkv, path_str movie_tmp}"
    using video_path_str_fixed [OF v(1)] video_path_str_fixed [OF v(2)]
    by (auto simp: load_save_lines)
  have l2: "load_processed_list (fst (main env_partial disk_after_timeout))
       = {path_str movie_mkv, path_str movie_tmp}"
    using l by (simp add: m load_processed_list_def movie_mkv_str)
  have n: "path_str movie_tmp \<notin> load_processed_list disk_after_timeout"
    by (simp add: load_after_timeout movie_tmp_str)
  from main_partial_first scan_after_timeout load_after_timeout(1) m l2 n
  show ?thesis by (simp add: movie_mkv_str)
qed

text \<open>
  Apart from such leftovers a second run changes nothing: when the first run has ended
  without an exception and none of the temporary conversion files of the videos it scanned
  is left on disk, the second run ends without an exception, leaves the files as they are,
  runs no command, and persists the same handled identities and the same fingerprints.
\<close>

theorem second_run_is_noop:
  assumes "main E D0 = (D1, None)"
    and "\<forall>v\<in>set (scan_video_files DIRECTORIES (d_files D0)).
           \<not> exists (d_files D1) (get_temp_conversion_filename E v)"
  shows "snd (main E D1) = None
       \<and> d_files (fst (main E D1)) = d_files D1
       \<and> d_calls (fst (main E D1)) = d_calls D1
       \<and> load_processed_list (fst (main E D1)) = load_processed_list D1
       \<and> load_hash_db (fst (main E D1)) = load_hash_db D1"
proof (cases "scan_video_files DIRECTORIES (d_files D0) = []")
  case True
  with assms(1) have "D1 = D0" by (simp add: main_no_videos)
  with True show ?thesis by (simp add: main_no_videos)
next
  case False
  let ?vs = "scan_video_files DIRECTORIES (d_files D0)"
  obtain s1 r where pa: "process_all E ?vs (start_state D0) = (s1, r)"
    by (cases "process_all E ?vs (start_state D0)") auto
  from main_result [OF refl False pa] assms(1) have r: "r = None"
    by (cases r) auto
  with main_result [OF refl False pa] assms(1)
  have D1: "D1 = D0\<lparr>d_files := files s1, d_calls := calls s1,
                    processed_txt := save_lines (processed_set s1),
                    hashes_db_txt := save_lines (processed_hashes s1)\<rparr>"
    by simp
  have fin: "finite (processed_set s1)"
    using process_all_sets [of "start_state D0" E ?vs] pa
    by (simp add: start_state_def load_processed_list_def finite_load_lines)
  have all_marked: "\<forall>v\<in>set ?vs. path_str v \<in> processed_set s1"
    and new: "\<forall>q. \<not> sidecar q \<and> exists (files s1) q \<longrightarrow>
              exists (d_files D0) q \<or> (\<exists>v\<in>set ?vs. q = get_temp_conversion_filename E v)
              \<or> path_str q \<in> processed_set s1"
    using process_all_completed [of E ?vs "start_state D0"] pa r
    by (simp_all add: start_state_def)
  have "\<forall>q\<in>set (scan_video_files DIRECTORIES (d_files D1)). path_str q \<in> load_processed_list D1"
  proof
    fix q assume "q \<in> set (scan_video_files DIRECTORIES (d_files D1))"
    then have q: "exists (files s1) q" "\<exists>d\<in>set DIRECTORIES. take (length d) (dir q) = d"
      "video_name (name q)"
      by (simp_all add: set_scan_video_files D1)
    from q(3) have ns: "\<not> sidecar q" using sidecar_not_video by blast
    have nt: "\<not> (\<exists>v\<in>set ?vs. q = get_temp_conversion_filename E v)"
      using assms(2) q(1) by (auto simp: D1)
    from new ns q(1) nt have "exists (d_files D0) q \<or> path_str q \<in> processed_set s1" by blast
    moreover have "exists (d_files D0) q \<longrightarrow> q \<in> set ?vs"
      using q(2,3) by (simp add: set_scan_video_files)
    ultimately have "path_str q \<in> processed_set s1" using all_marked by blast
    moreover have "strip (path_str q) = path_str q" "path_str q \<noteq> []"
      using video_path_str_fixed [OF q(3)] by simp_all
    ultimately have "path_str q \<in> {x \<in> strip ` processed_set s1. x \<noteq> []}" by force
    then show "path_str q \<in> load_processed_list D1"
      by (simp add: load_processed_list_def D1 load_save_lines [OF fin])
  qed
  then show ?thesis by (rule main_all_handled)
qed


lemma main_4k_first: "main env_4k disk_one = (disk_after_skip, None)"
proof -
  have a: "path_str movie_mkv \<notin> processed_set state0" by (simp add: state0_def)
  have b: "compute_file_hash env_4k movie_mkv (files state0) = Inr ''sha:mkv bytes''"
    by (simp add: state0_hash env_4k_def env_gpu_timeout_def)
  have c: "\<not> (''sha:mkv bytes'' \<noteq> [] \<and> ''sha:mkv bytes'' \<in> processed_hashes state0)"
    by (simp add: state0_def)
  have u: "SKIP_4K_OR_HDR \<and> is_4k_or_hdr (i_width info_4k) (i_height info_4k) (i_color_transfer info_4k)"
    by (simp add: info_4k_def is_4k_or_hdr_def SKIP_4K_OR_HDR_def)
  have "process_video env_4k movie_mkv state0
      = (mark_handled movie_mkv (after_hash movie_mkv ''sha:mkv bytes'' state0), None)"
    using process_video_probed [OF a b c env_4k_info] u by (simp add: info_4k_def info0_def)
  moreover have "mark_handled movie_mkv (after_hash movie_mkv ''sha:mkv bytes'' state0)
      = state0\<lparr>processed_set := {''/F:/TV/movie.mkv''}, processed_hashes := {''sha:mkv bytes''}\<rparr>"
    by (simp add: mark_handled_def after_hash_def after_cleanup_def state0_cleanup movie_mkv_str)
       (simp add: state0_def)
  ultimately have pa: "process_all env_4k [movie_mkv] (start_state disk_one)
     = (state0\<lparr>processed_set := {''/F:/TV/movie.mkv''}, processed_hashes := {''sha:mkv bytes''}\<rparr>,
        None)"
    by (simp add: start_state_disk_one)
  show ?thesis
    using main_result [OF scan_disk_one _ pa]
    by (simp add: save_lines_def disk_one_def disk_after_skip_def state0_def)
qed

theorem second_run_is_noop_witness:
  "main env_4k disk_one = (disk_after_skip, None)
   \<and> snd (main env_4k disk_after_skip) = None
   \<and> d_files (fst (main env_4k disk_after_skip)) = d_files disk_after_skip
   \<and> d_calls (fst (main env_4k disk_after_skip)) = []
   \<and> load_processed_list (fst (main env_4k disk_after_skip)) = {''/F:/TV/movie.mkv''}
   \<and> load_hash_db (fst (main env_4k disk_after_skip)) = {''sha:mkv bytes''}"
proof -
  have t: "get_temp_conversion_filename env_4k movie_mkv = movie_tmp"
    by (simp add: get_temp_conversion_filename_def movie_mkv_stem movie_mkv_dir movie_tmp_def
        env_4k_def env_gpu_timeout_def)
  have n: "\<forall>v\<in>set (scan_video_files DIRECTORIES (d_files disk_one)).
           \<not> exists (d_files disk_after_skip) (get_temp_conversion_filename env_4k v)"
    by (simp add: scan_disk_one t)
       (simp add: exists_def lookup_def disk_after_skip_def movie_mkv_def movie_tmp_def)
  have l: "load_processed_list disk_after_skip = {''/F:/TV/movie.mkv''}"
    "load_hash_db disk_after_skip = {''sha:mkv bytes''}"
    "d_calls disk_after_skip = []"
    by (simp_all add: load_processed_list_def load_hash_db_def load_lines_def disk_after_skip_def
      strip_def is_space_def)
  from second_run_is_noop [OF main_4k_first n] main_4k_first l
  show ?thesis by simp
qed

section \<open>Two files with the same content\<close>


















end
